theory Spec2Isabelle
  imports Complex_Main "HOL-Library.Word"
begin

section \<open>The NFS client statistics plugin (plugins/inputs/nfsclient/nfsclient.go)\<close>

text \<open>
  A shallow embedding of \<^verbatim>\<open>Init\<close>, \<^verbatim>\<open>convertToUint64\<close>, \<^verbatim>\<open>parseStat\<close> and
  \<^verbatim>\<open>processText\<close>. Go's \<^verbatim>\<open>uint64\<close> is \<open>64 word\<close>, a Go map is a partial function,
  a returned error and a run-time panic are values of the type \<open>failure\<close>, and the
  accumulator is the list of the metrics added so far.
\<close>

subsection \<open>Values and failures\<close>

type_synonym uint64 = "64 word"

text \<open>
  \<open>ErrRangeError\<close> is the error built by \<^verbatim>\<open>convertToUint64\<close> (and wrapped, class
  preserved, by \<^verbatim>\<open>processText\<close>); \<open>IndexOutOfRange\<close> is Go's run-time panic on an
  index past the end of a slice.
\<close>

datatype failure = ErrRangeError | IndexOutOfRange

datatype numError = ErrSyntax | ErrRange

datatype fieldValue = Uint64 uint64 | Float64 rat

type_synonym fieldMap = "string \<rightharpoonup> fieldValue"
type_synonym tagMap = "string \<rightharpoonup> string"
type_synonym opMap = "string \<rightharpoonup> bool"

text \<open>A compiled regular expression is represented by its \<^verbatim>\<open>MatchString\<close> predicate.\<close>

type_synonym regexp = "string \<Rightarrow> bool"

record metric =
  measurement :: string
  metricFields :: fieldMap
  metricTags :: tagMap

record NFSClient =
  Fullstat :: bool
  IncludeMounts :: "string list"
  ExcludeMounts :: "string list"
  IncludeOperations :: "string list"
  ExcludeOperations :: "string list"
  nfs3Ops :: opMap
  nfs4Ops :: opMap
  mountstatsPath :: string
  includeMountRegex :: "regexp list"
  excludeMountRegex :: "regexp list"

text \<open>Go's slice indexing \<^verbatim>\<open>xs[i]\<close>: a panic when \<open>i\<close> is out of range.\<close>

definition index :: "'a list \<Rightarrow> nat \<Rightarrow> failure + 'a" where
  "index xs i = (if i < length xs then Inr (xs ! i) else Inl IndexOutOfRange)"

definition andThen :: "failure + 'a \<Rightarrow> ('a \<Rightarrow> failure + 'b) \<Rightarrow> failure + 'b" where
  "andThen r f = (case r of Inl e \<Rightarrow> Inl e | Inr x \<Rightarrow> f x)"

text \<open>Reading a Go \<^verbatim>\<open>map[string]bool\<close>: a missing key reads as \<^verbatim>\<open>false\<close>.\<close>

definition lookupOp :: "opMap \<Rightarrow> string \<Rightarrow> bool" where
  "lookupOp m k = (case m k of None \<Rightarrow> False | Some b \<Rightarrow> b)"

subsection \<open>The Go standard library functions the plugin calls\<close>

text \<open>
  \<^verbatim>\<open>strconv.ParseUint(s, 10, 64)\<close>. The loop of the library function reads the bytes
  from the left: a byte that is no digit of base 10 is a syntax error with value 0,
  and an overflow found before such a byte is a range error with the maximal value.
\<close>

definition lower :: "nat \<Rightarrow> nat" where
  "lower c = or c 32"

definition cutoff :: uint64 where
  "cutoff = (- 1) div 10 + 1"

definition maxVal :: uint64 where
  "maxVal = push_bit 64 1 - 1"

fun parseUintLoop :: "string \<Rightarrow> uint64 \<Rightarrow> uint64 \<times> numError option" where
  "parseUintLoop [] n = (n, None)"
| "parseUintLoop (ch # s) n =
     (let c = (of_char ch :: nat) in
      if \<not> ((48 \<le> c \<and> c \<le> 57) \<or> (97 \<le> lower c \<and> lower c \<le> 122))
      then (0, Some ErrSyntax)
      else
        let d = (if 48 \<le> c \<and> c \<le> 57 then c - 48 else lower c - 97 + 10) in
        if d \<ge> 10 then (0, Some ErrSyntax)
        else if n \<ge> cutoff then (maxVal, Some ErrRange)
        else
          let n' = n * 10; n1 = n' + of_nat d in
          if n1 < n' \<or> n1 > maxVal then (maxVal, Some ErrRange)
          else parseUintLoop s n1)"

definition ParseUint :: "string \<Rightarrow> uint64 \<times> numError option" where
  "ParseUint s = (if s = [] then (0, Some ErrSyntax) else parseUintLoop s 0)"

text \<open>
  \<^verbatim>\<open>strings.Fields\<close>: the maximal runs of bytes between white space. White space is
  what \<^verbatim>\<open>unicode.IsSpace\<close> accepts, in the UTF-8 encoding of the string: the six ASCII
  bytes (tab, line feed, vertical tab, form feed, carriage return, space) and the
  encodings of U+0085, U+00A0, U+1680, U+2000 to U+200A, U+2028, U+2029, U+202F, U+205F
  and U+3000. \<open>spaceWidth\<close> is the number of bytes of the white-space character at the
  head of the string, or 0. Every other byte, also one that is not valid UTF-8, belongs
  to a field.
\<close>

definition isSpace :: "char \<Rightarrow> bool" where
  "isSpace ch = (let c = (of_char ch :: nat) in c = 32 \<or> (9 \<le> c \<and> c \<le> 13))"

fun spaceWidth :: "string \<Rightarrow> nat" where
  "spaceWidth [] = 0"
| "spaceWidth (c0 # s) =
     (if isSpace c0 then 1
      else
        (case s of
           [] \<Rightarrow> 0
         | c1 # s1 \<Rightarrow>
             (let b0 = (of_char c0 :: nat); b1 = (of_char c1 :: nat) in
              if b0 = 194 \<and> (b1 = 133 \<or> b1 = 160) then 2
              else
                (case s1 of
                   [] \<Rightarrow> 0
                 | c2 # s2 \<Rightarrow>
                     (let b2 = (of_char c2 :: nat) in
                      if (b0 = 225 \<and> b1 = 154 \<and> b2 = 128) \<or>
                         (b0 = 226 \<and> b1 = 128 \<and>
                            ((128 \<le> b2 \<and> b2 \<le> 138) \<or> b2 = 168 \<or> b2 = 169 \<or> b2 = 175)) \<or>
                         (b0 = 226 \<and> b1 = 129 \<and> b2 = 159) \<or>
                         (b0 = 227 \<and> b1 = 128 \<and> b2 = 128)
                      then 3 else 0)))))"

function fieldsFrom :: "string \<Rightarrow> string \<Rightarrow> string list" where
  "fieldsFrom [] cur = (if cur = [] then [] else [cur])"
| "fieldsFrom (c # cs) cur =
     (if spaceWidth (c # cs) = 0 then fieldsFrom cs (cur @ [c])
      else if cur = [] then fieldsFrom (drop (spaceWidth (c # cs) - 1) cs) []
      else cur # fieldsFrom (drop (spaceWidth (c # cs) - 1) cs) [])"
  by pat_completeness auto
termination
  by (relation "measure (\<lambda>(s, cur). length s)") auto

definition Fields :: "string \<Rightarrow> string list" where
  "Fields s = fieldsFrom s []"

text \<open>\<^verbatim>\<open>strings.Split(s, sep)\<close> for a separator of one byte.\<close>

fun Split :: "string \<Rightarrow> char \<Rightarrow> string list" where
  "Split [] sep = [[]]"
| "Split (c # cs) sep =
     (if c = sep then [] # Split cs sep
      else (let r = Split cs sep in (c # hd r) # tl r))"

text \<open>\<^verbatim>\<open>strings.Replace(s, old, new, 1)\<close> for an \<open>old\<close> of one byte.\<close>

fun Replace1 :: "string \<Rightarrow> char \<Rightarrow> string \<Rightarrow> string" where
  "Replace1 [] old new = []"
| "Replace1 (c # cs) old new = (if c = old then new @ cs else c # Replace1 cs old new)"

text \<open>
  The conversion \<^verbatim>\<open>float64(x)\<close> and the division of two \<^verbatim>\<open>float64\<close> values. A
  \<^verbatim>\<open>float64\<close> is represented by the rational number it denotes, and \<open>roundFloat64\<close>
  rounds a non-negative rational to the nearest number with a significand of 53 bits,
  ties to even. The operands here come from \<^verbatim>\<open>uint64\<close> values, so every result is
  either zero or in the range of the normal numbers.
\<close>

function log2floor :: "int \<Rightarrow> int" where
  "log2floor n = (if n < 2 then 0 else log2floor (n div 2) + 1)"
  by pat_completeness auto
termination
  by (relation "measure nat") auto

definition pow2 :: "int \<Rightarrow> rat" where
  "pow2 e = (if 0 \<le> e then 2 ^ nat e else 1 / 2 ^ nat (- e))"

definition roundHalfEven :: "rat \<Rightarrow> int" where
  "roundHalfEven q =
     (let f = \<lfloor>q\<rfloor>; r = q - of_int f in
      if r < 1 / 2 then f else if 1 / 2 < r then f + 1
      else if even f then f else f + 1)"

definition roundFloat64 :: "rat \<Rightarrow> rat" where
  "roundFloat64 q =
     (if q \<le> 0 then 0
      else
        let (a, b) = quotient_of q;
            e0 = log2floor a - log2floor b;
            e = (if pow2 e0 \<le> q then e0 else e0 - 1);
            ulp = pow2 (e - 52)
        in of_int (roundHalfEven (q / ulp)) * ulp)"

definition float64 :: "uint64 \<Rightarrow> rat" where
  "float64 x = roundFloat64 (of_int (uint x))"

definition float64Div :: "rat \<Rightarrow> rat \<Rightarrow> rat" where
  "float64Div x y = roundFloat64 (x / y)"

subsection \<open>Collaborators of the plugin inside the repository\<close>

text \<open>
  Modelled from the spec: \<^verbatim>\<open>choice.Contains\<close> of the package \<^verbatim>\<open>internal/choice\<close>,
  whose source is not among the files. The scanner looks for a line "containing the
  tokens" \<^verbatim>\<open>fstype\<close> and \<^verbatim>\<open>nfs\<close> or \<^verbatim>\<open>nfs4\<close>: membership of a string in a list.
\<close>

definition Contains :: "string \<Rightarrow> string list \<Rightarrow> bool" where
  "Contains choice choices = (choice \<in> set choices)"

text \<open>
  Modelled from the spec: \<^verbatim>\<open>AddFields\<close> of the interface \<^verbatim>\<open>telegraf.Accumulator\<close>,
  whose source is not among the files. The output is "a sequence of metric records",
  "one call per emitted metric": a call appends one metric holding the measurement name
  and the field and tag maps as they are at the call.
\<close>

definition AddFields :: "string \<Rightarrow> fieldMap \<Rightarrow> tagMap \<Rightarrow> metric list \<Rightarrow> metric list" where
  "AddFields m fs ts acc =
     acc @ [\<lparr>measurement = m, metricFields = fs, metricTags = ts\<rparr>]"

subsection \<open>Init\<close>

definition nfs3Fields :: "string list" where
  "nfs3Fields =
     [''NULL'', ''GETATTR'', ''SETATTR'', ''LOOKUP'', ''ACCESS'', ''READLINK'', ''READ'',
      ''WRITE'', ''CREATE'', ''MKDIR'', ''SYMLINK'', ''MKNOD'', ''REMOVE'', ''RMDIR'',
      ''RENAME'', ''LINK'', ''READDIR'', ''READDIRPLUS'', ''FSSTAT'', ''FSINFO'',
      ''PATHCONF'', ''COMMIT'']"

definition nfs4Fields :: "string list" where
  "nfs4Fields =
     [''NULL'', ''READ'', ''WRITE'', ''COMMIT'', ''OPEN'', ''OPEN_CONFIRM'', ''OPEN_NOATTR'',
      ''OPEN_DOWNGRADE'', ''CLOSE'', ''SETATTR'', ''FSINFO'', ''RENEW'', ''SETCLIENTID'',
      ''SETCLIENTID_CONFIRM'', ''LOCK'', ''LOCKT'', ''LOCKU'', ''ACCESS'', ''GETATTR'',
      ''LOOKUP'', ''LOOKUP_ROOT'', ''REMOVE'', ''RENAME'', ''LINK'', ''SYMLINK'', ''CREATE'',
      ''PATHCONF'', ''STATFS'', ''READLINK'', ''READDIR'', ''SERVER_CAPS'', ''DELEGRETURN'',
      ''GETACL'', ''SETACL'', ''FS_LOCATIONS'', ''RELEASE_LOCKOWNER'', ''SECINFO'',
      ''FSID_PRESENT'', ''EXCHANGE_ID'', ''CREATE_SESSION'', ''DESTROY_SESSION'', ''SEQUENCE'',
      ''GET_LEASE_TIME'', ''RECLAIM_COMPLETE'', ''LAYOUTGET'', ''GETDEVICEINFO'',
      ''LAYOUTCOMMIT'', ''LAYOUTRETURN'', ''SECINFO_NO_NAME'', ''TEST_STATEID'',
      ''FREE_STATEID'', ''GETDEVICELIST'', ''BIND_CONN_TO_SESSION'', ''DESTROY_CLIENTID'',
      ''SEEK'', ''ALLOCATE'', ''DEALLOCATE'', ''LAYOUTSTATS'', ''CLONE'', ''COPY'',
      ''OFFLOAD_CANCEL'', ''LOOKUPP'', ''LAYOUTERROR'', ''COPY_NOTIFY'', ''GETXATTR'',
      ''SETXATTR'', ''LISTXATTRS'', ''REMOVEXATTR'']"

text \<open>The loops \<^verbatim>\<open>for _, Op := range ops { m[Op] = true }\<close>.\<close>

fun setOps :: "string list \<Rightarrow> opMap \<Rightarrow> opMap" where
  "setOps [] m = m"
| "setOps (Op # ops) m = setOps ops (m(Op \<mapsto> True))"

text \<open>The loop over \<^verbatim>\<open>ExcludeOperations\<close>, on both tables at once.\<close>

fun excludeOps :: "string list \<Rightarrow> opMap \<times> opMap \<Rightarrow> opMap \<times> opMap" where
  "excludeOps [] (m3, m4) = (m3, m4)"
| "excludeOps (Op # ops) (m3, m4) =
     excludeOps ops
       (if lookupOp m3 Op then m3(Op := None) else m3,
        if lookupOp m4 Op then m4(Op := None) else m4)"

text \<open>\<^verbatim>\<open>getMountStatsPath\<close>; the argument is the value of the variable \<^verbatim>\<open>MOUNT_PROC\<close>.\<close>

definition getMountStatsPath :: "string \<Rightarrow> string" where
  "getMountStatsPath mountProc =
     (if mountProc \<noteq> [] then mountProc else ''/proc/self/mountstats'')"

datatype initError = IncludePatternError string | ExcludePatternError string

text \<open>
  The two loops that compile the mount patterns; \<open>compile\<close> stands for
  \<^verbatim>\<open>regexp.Compile\<close>, \<open>None\<close> being its error.
\<close>

fun compileAll :: "(string \<Rightarrow> regexp option) \<Rightarrow> string list \<Rightarrow> regexp list \<Rightarrow> string + regexp list" where
  "compileAll compile [] rs = Inr rs"
| "compileAll compile (pattern # ps) rs =
     (case compile pattern of
        None \<Rightarrow> Inl pattern
      | Some compiled \<Rightarrow> compileAll compile ps (rs @ [compiled]))"

text \<open>The operation tables built by \<^verbatim>\<open>Init\<close>: the include list, then the exclude list.\<close>

definition initOps :: "NFSClient \<Rightarrow> opMap \<times> opMap" where
  "initOps n =
     (let (ops3, ops4) =
            (if length (IncludeOperations n) = 0
             then (setOps nfs3Fields Map.empty, setOps nfs4Fields Map.empty)
             else (setOps (IncludeOperations n) Map.empty,
                   setOps (IncludeOperations n) Map.empty))
      in if length (ExcludeOperations n) > 0
         then excludeOps (ExcludeOperations n) (ops3, ops4)
         else (ops3, ops4))"

definition Init :: "(string \<Rightarrow> regexp option) \<Rightarrow> string \<Rightarrow> NFSClient \<Rightarrow> initError + NFSClient" where
  "Init compile mountProc n =
     (let (ops3, ops4) = initOps n;
          n1 = n\<lparr>mountstatsPath := getMountStatsPath mountProc,
                 nfs3Ops := ops3, nfs4Ops := ops4\<rparr>
      in
        (case (if length (IncludeMounts n1) > 0
               then compileAll compile (IncludeMounts n1) []
               else Inr (includeMountRegex n1)) of
           Inl pattern \<Rightarrow> Inl (IncludePatternError pattern)
         | Inr incl \<Rightarrow>
             (case (if length (ExcludeMounts n1) > 0
                    then compileAll compile (ExcludeMounts n1) []
                    else Inr (excludeMountRegex n1)) of
                Inl pattern \<Rightarrow> Inl (ExcludePatternError pattern)
              | Inr excl \<Rightarrow>
                  Inr (n1\<lparr>includeMountRegex := incl, excludeMountRegex := excl\<rparr>))))"

text \<open>The plugin as it is registered: \<^verbatim>\<open>&NFSClient{}\<close>, every field at its zero value.\<close>

definition newNFSClient :: NFSClient where
  "newNFSClient =
     \<lparr>Fullstat = False, IncludeMounts = [], ExcludeMounts = [],
      IncludeOperations = [], ExcludeOperations = [],
      nfs3Ops = Map.empty, nfs4Ops = Map.empty, mountstatsPath = [],
      includeMountRegex = [], excludeMountRegex = []\<rparr>"

subsection \<open>convertToUint64\<close>

fun convertLoop :: "string list \<Rightarrow> uint64 list \<Rightarrow> failure + uint64 list" where
  "convertLoop [] nline = Inr nline"
| "convertLoop (l # ls) nline =
     (case ParseUint l of
        (val, Some ErrRange) \<Rightarrow> Inl ErrRangeError
      | (val, _) \<Rightarrow> convertLoop ls (nline @ [val]))"

definition convertToUint64 :: "string list \<Rightarrow> failure + uint64 list" where
  "convertToUint64 line =
     (if length line < 2 then Inr [] else convertLoop (tl line) [])"

subsection \<open>parseStat\<close>

definition eventsFields :: "string list" where
  "eventsFields =
     [''inoderevalidates'', ''dentryrevalidates'', ''datainvalidates'', ''attrinvalidates'',
      ''vfsopen'', ''vfslookup'', ''vfsaccess'', ''vfsupdatepage'', ''vfsreadpage'',
      ''vfsreadpages'', ''vfswritepage'', ''vfswritepages'', ''vfsgetdents'', ''vfssetattr'',
      ''vfsflush'', ''vfsfsync'', ''vfslock'', ''vfsrelease'', ''congestionwait'',
      ''setattrtrunc'', ''extendwrite'', ''sillyrenames'', ''shortreads'', ''shortwrites'',
      ''delay'', ''pnfsreads'', ''pnfswrites'']"

definition bytesFields :: "string list" where
  "bytesFields =
     [''normalreadbytes'', ''normalwritebytes'', ''directreadbytes'', ''directwritebytes'',
      ''serverreadbytes'', ''serverwritebytes'', ''readpages'', ''writepages'']"

definition xprtudpFields :: "string list" where
  "xprtudpFields =
     [''bind_count'', ''rpcsends'', ''rpcreceives'', ''badxids'', ''inflightsends'',
      ''backlogutil'']"

definition xprttcpFields :: "string list" where
  "xprttcpFields =
     [''bind_count'', ''connect_count'', ''connect_time'', ''idle_time'', ''rpcsends'',
      ''rpcreceives'', ''badxids'', ''inflightsends'', ''backlogutil'']"

definition nfsopFields :: "string list" where
  "nfsopFields =
     [''ops'', ''trans'', ''timeouts'', ''bytes_sent'', ''bytes_recv'', ''queue_time'',
      ''response_time'', ''total_time'', ''errors'']"

text \<open>The variables of \<^verbatim>\<open>parseStat\<close> that change, and the accumulator.\<close>

record locals =
  curFields :: fieldMap
  curTags :: tagMap
  curAcc :: "metric list"

definition emit :: "string \<Rightarrow> locals \<Rightarrow> locals" where
  "emit m s = s\<lparr>curAcc := AddFields m (curFields s) (curTags s) (curAcc s)\<rparr>"

text \<open>
  The loops \<^verbatim>\<open>for i, t := range names { fields[t] = nline[i+off] }\<close>, from index \<open>i\<close> on.
\<close>

fun assignFields :: "string list \<Rightarrow> nat \<Rightarrow> nat \<Rightarrow> uint64 list \<Rightarrow> fieldMap \<Rightarrow> failure + fieldMap" where
  "assignFields [] i off nline fs = Inr fs"
| "assignFields (t # ts) i off nline fs =
     andThen (index nline (i + off))
       (\<lambda>v. assignFields ts (Suc i) off nline (fs(t \<mapsto> Uint64 v)))"

text \<open>The loop \<^verbatim>\<open>for i, t := range nline { fields[nfsopFields[i]] = t }\<close>.\<close>

fun assignOps :: "uint64 list \<Rightarrow> nat \<Rightarrow> string list \<Rightarrow> fieldMap \<Rightarrow> failure + fieldMap" where
  "assignOps [] i names fs = Inr fs"
| "assignOps (t # ts) i names fs =
     andThen (index names i)
       (\<lambda>name. assignOps ts (Suc i) names (fs(name \<mapsto> Uint64 t)))"

text \<open>The first \<^verbatim>\<open>switch first\<close>: the basic statistics of a READ or WRITE line.\<close>

definition basicStat :: "string \<Rightarrow> uint64 list \<Rightarrow> locals \<Rightarrow> failure + locals" where
  "basicStat first nline s =
     (if first = ''READ'' \<or> first = ''WRITE'' then
        andThen (index nline 0) (\<lambda>n0.
        andThen (index nline 1) (\<lambda>n1.
        andThen (index nline 3) (\<lambda>n3.
        andThen (index nline 4) (\<lambda>n4.
        andThen (index nline 6) (\<lambda>n6.
        andThen (index nline 7) (\<lambda>n7.
          let fs = (curFields s)
                (''ops'' \<mapsto> Uint64 n0,
                 ''retrans'' \<mapsto> Uint64 (n1 - n0),
                 ''bytes'' \<mapsto> Uint64 (n3 + n4),
                 ''rtt'' \<mapsto> Uint64 n6,
                 ''exe'' \<mapsto> Uint64 n7,
                 ''rtt_per_op'' \<mapsto> Float64 0);
              fs = (if n0 > 0
                    then fs(''rtt_per_op'' \<mapsto> Float64 (float64Div (float64 n6) (float64 n0)))
                    else fs)
          in Inr (emit ''nfsstat''
                    (s\<lparr>curFields := fs, curTags := (curTags s)(''operation'' \<mapsto> first)\<rparr>))))))))
      else Inr s)"

text \<open>The \<^verbatim>\<open>switch first\<close> under \<^verbatim>\<open>n.Fullstat\<close>: events, bytes and xprt lines.\<close>

definition fullStat :: "string \<Rightarrow> string list \<Rightarrow> uint64 list \<Rightarrow> locals \<Rightarrow> failure + locals" where
  "fullStat first line nline s =
     (if first = ''events'' then
        (if length nline \<ge> length eventsFields then
           andThen (assignFields eventsFields 0 0 nline (curFields s))
             (\<lambda>fs. Inr (emit ''nfs_events'' (s\<lparr>curFields := fs\<rparr>)))
         else Inr s)
      else if first = ''bytes'' then
        (if length nline \<ge> length bytesFields then
           andThen (assignFields bytesFields 0 0 nline (curFields s))
             (\<lambda>fs. Inr (emit ''nfs_bytes'' (s\<lparr>curFields := fs\<rparr>)))
         else Inr s)
      else if first = ''xprt'' then
        (if length line > 1 then
           andThen (index line 1) (\<lambda>transport.
             if transport = ''tcp'' then
               (if length nline + 2 \<ge> length xprttcpFields then
                  andThen (assignFields xprttcpFields 0 2 nline (curFields s))
                    (\<lambda>fs. Inr (emit ''nfs_xprt_tcp'' (s\<lparr>curFields := fs\<rparr>)))
                else Inr s)
             else if transport = ''udp'' then
               (if length nline + 2 \<ge> length xprtudpFields then
                  andThen (assignFields xprtudpFields 0 2 nline (curFields s))
                    (\<lambda>fs. Inr (emit ''nfs_xprt_udp'' (s\<lparr>curFields := fs\<rparr>)))
                else Inr s)
             else Inr s)
         else Inr s)
      else Inr s)"

text \<open>The per-operation statistics, for an operation tracked for the version.\<close>

definition opStat :: "NFSClient \<Rightarrow> string \<Rightarrow> string \<Rightarrow> uint64 list \<Rightarrow> locals \<Rightarrow> failure + locals" where
  "opStat n version first nline s =
     (if (version = ''3'' \<and> lookupOp (nfs3Ops n) first) \<or>
         (version = ''4'' \<and> lookupOp (nfs4Ops n) first) then
        (let s1 = s\<lparr>curTags := (curTags s)(''operation'' \<mapsto> first)\<rparr> in
         if length nline \<le> length nfsopFields then
           andThen (assignOps nline 0 nfsopFields (curFields s1))
             (\<lambda>fs. Inr (emit ''nfs_ops'' (s1\<lparr>curFields := fs\<rparr>)))
         else Inr s1)
      else Inr s)"

text \<open>
  The body of \<^verbatim>\<open>parseStat\<close> after the conversion: the classification of the line
  with the converted values \<open>nline\<close>. The result is the accumulator and the failure, if
  any. Every block adds its metric as its last step, so a block that panics has added
  nothing.
\<close>

definition classifyStat ::
  "NFSClient \<Rightarrow> string \<Rightarrow> string \<Rightarrow> string \<Rightarrow> string list \<Rightarrow> uint64 list \<Rightarrow> metric list
     \<Rightarrow> metric list \<times> failure option" where
  "classifyStat n mountpoint export version line nline a =
     (if length nline = 0 then (a, None)
      else
        (case index line 0 of
           Inl p \<Rightarrow> (a, Some p)
         | Inr l0 \<Rightarrow>
             (let first = Replace1 l0 CHR '':'' [];
                  s0 = \<lparr>curFields = Map.empty,
                        curTags = [''mountpoint'' \<mapsto> mountpoint,
                                   ''serverexport'' \<mapsto> export],
                        curAcc = a\<rparr>
              in
                (case basicStat first nline s0 of
                   Inl p \<Rightarrow> (curAcc s0, Some p)
                 | Inr s1 \<Rightarrow>
                     (if Fullstat n then
                        (case fullStat first line nline s1 of
                           Inl p \<Rightarrow> (curAcc s1, Some p)
                         | Inr s2 \<Rightarrow>
                             (case opStat n version first nline s2 of
                                Inl p \<Rightarrow> (curAcc s2, Some p)
                              | Inr s3 \<Rightarrow> (curAcc s3, None)))
                      else (curAcc s1, None))))))"

definition parseStat ::
  "NFSClient \<Rightarrow> string \<Rightarrow> string \<Rightarrow> string \<Rightarrow> string list \<Rightarrow> metric list
     \<Rightarrow> metric list \<times> failure option" where
  "parseStat n mountpoint export version line a =
     (case convertToUint64 line of
        Inl err \<Rightarrow> (a, Some err)
      | Inr nline \<Rightarrow> classifyStat n mountpoint export version line nline a)"

subsection \<open>processText\<close>

record scanState =
  mount :: string
  version :: string
  export :: string

text \<open>The loops over the compiled patterns, left at the first match.\<close>

fun anyMatch :: "regexp list \<Rightarrow> string \<Rightarrow> bool" where
  "anyMatch [] s = False"
| "anyMatch (regex # rs) s = (if regex s then True else anyMatch rs s)"

definition skipMount :: "NFSClient \<Rightarrow> string \<Rightarrow> bool" where
  "skipMount n m =
     (let skip = False;
          skip = (if length (includeMountRegex n) > 0
                  then \<not> anyMatch (includeMountRegex n) m else skip);
          skip = (if \<not> skip \<and> length (excludeMountRegex n) > 0
                  then (if anyMatch (excludeMountRegex n) m then True else skip)
                  else skip)
      in skip)"

text \<open>The head of the loop body: a block-start line or a version line changes the state.\<close>

definition isBlockStart :: "string list \<Rightarrow> bool" where
  "isBlockStart line =
     (length line > 4 \<and> Contains ''fstype'' line \<and>
      (Contains ''nfs'' line \<or> Contains ''nfs4'' line))"

definition isVersionLine :: "string list \<Rightarrow> bool" where
  "isVersionLine line =
     (length line > 5 \<and> (Contains ''(nfs)'' line \<or> Contains ''(nfs4)'' line))"

definition updateState :: "string list \<Rightarrow> scanState \<Rightarrow> failure + scanState" where
  "updateState line st =
     (if isBlockStart line then
        andThen (index line 4) (\<lambda>l4.
        andThen (index line 1) (\<lambda>l1.
          Inr (st\<lparr>mount := l4, export := l1\<rparr>)))
      else if isVersionLine line then
        andThen (index line 5) (\<lambda>l5.
        andThen (index (Split l5 CHR ''/'') 1) (\<lambda>v.
          Inr (st\<lparr>version := v\<rparr>)))
      else Inr st)"

text \<open>
  The loop of \<^verbatim>\<open>processText\<close> over the lines the scanner delivers, from a given state;
  the result is the accumulator and the failure that ended the scan, if any.
\<close>

fun scanLines :: "NFSClient \<Rightarrow> string list \<Rightarrow> scanState \<Rightarrow> metric list
    \<Rightarrow> metric list \<times> failure option" where
  "scanLines n [] st a = (a, None)"
| "scanLines n (text # rest) st a =
     (let line = Fields text in
      if length line = 0 then scanLines n rest st a
      else
        (case updateState line st of
           Inl p \<Rightarrow> (a, Some p)
         | Inr st1 \<Rightarrow>
             (if mount st1 = [] then scanLines n rest st1 a
              else if \<not> skipMount n (mount st1) then
                (case parseStat n (mount st1) (export st1) (version st1) line a of
                   (a1, Some err) \<Rightarrow> (a1, Some err)
                 | (a1, None) \<Rightarrow> scanLines n rest st1 a1)
              else scanLines n rest st1 a)))"

definition processText :: "NFSClient \<Rightarrow> string list \<Rightarrow> metric list
    \<Rightarrow> metric list \<times> failure option" where
  "processText n lines a =
     scanLines n lines \<lparr>mount = [], version = [], export = []\<rparr> a"

subsection \<open>Notions used to state the properties\<close>

text \<open>A decimal token and the number it denotes.\<close>

definition isDigit :: "char \<Rightarrow> bool" where
  "isDigit ch = (48 \<le> (of_char ch :: nat) \<and> (of_char ch :: nat) \<le> 57)"

fun decimalFrom :: "nat \<Rightarrow> string \<Rightarrow> nat" where
  "decimalFrom v [] = v"
| "decimalFrom v (ch # s) = decimalFrom (10 * v + (of_char ch - 48)) s"

definition decimalValue :: "string \<Rightarrow> nat" where
  "decimalValue s = decimalFrom 0 s"

text \<open>
  The state after a run of lines: the updates of the loop head applied in order, or the
  panic of the first update that fails.
\<close>

fun stateAfter :: "string list \<Rightarrow> scanState \<Rightarrow> failure + scanState" where
  "stateAfter [] st = Inr st"
| "stateAfter (t # ts) st =
     (case updateState (Fields t) st of
        Inl p \<Rightarrow> Inl p
      | Inr st1 \<Rightarrow> stateAfter ts st1)"

text \<open>
  A pattern anchored at the start of the path, such as \<^verbatim>\<open>^/data\<close>, as its match
  predicate.
\<close>

definition mountPrefix :: "string \<Rightarrow> regexp" where
  "mountPrefix p s = (take (length p) s = p)"

text \<open>
  The fields of the basic category as section 4.3 of the specification lists them, and
  the tags of a metric that carries an operation.
\<close>

definition basicFields :: "uint64 list \<Rightarrow> fieldMap" where
  "basicFields nline =
     [''ops'' \<mapsto> Uint64 (nline ! 0),
      ''retrans'' \<mapsto> Uint64 (nline ! 1 - nline ! 0),
      ''bytes'' \<mapsto> Uint64 (nline ! 3 + nline ! 4),
      ''rtt'' \<mapsto> Uint64 (nline ! 6),
      ''exe'' \<mapsto> Uint64 (nline ! 7),
      ''rtt_per_op'' \<mapsto>
        Float64 (if nline ! 0 > 0 then float64Div (float64 (nline ! 6)) (float64 (nline ! 0))
                 else 0)]"

definition statTags :: "string \<Rightarrow> string \<Rightarrow> string \<Rightarrow> tagMap" where
  "statTags mountpoint serverexport operation =
     [''mountpoint'' \<mapsto> mountpoint, ''serverexport'' \<mapsto> serverexport, ''operation'' \<mapsto> operation]"

text \<open>
  Configurations for the examples: a \<^verbatim>\<open>regexp.Compile\<close> that is never reached because
  no pattern is configured, and the plugin after \<^verbatim>\<open>Init\<close> with full statistics on and
  no other setting.
\<close>

definition noPattern :: "string \<Rightarrow> regexp option" where
  "noPattern pattern = None"

definition fullstatClient :: NFSClient where
  "fullstatClient =
     newNFSClient\<lparr>Fullstat := True,
                   nfs3Ops := setOps nfs3Fields Map.empty,
                   nfs4Ops := setOps nfs4Fields Map.empty,
                   mountstatsPath := ''/proc/self/mountstats''\<rparr>"

section \<open>Properties\<close>

subsection \<open>Failures and their propagation\<close>

lemma spaceWidth_ascii:
  "(of_char c :: nat) < 128 \<Longrightarrow> spaceWidth (c # s) = (if isSpace c then 1 else 0)"
  by (auto simp: Let_def split: list.splits)

lemma fieldsFrom_ascii:
  "(of_char c :: nat) < 128 \<Longrightarrow>
   fieldsFrom (c # cs) cur =
     (if isSpace c then (if cur = [] then fieldsFrom cs [] else cur # fieldsFrom cs [])
      else fieldsFrom cs (cur @ [c]))"
  by (simp add: spaceWidth_ascii del: spaceWidth.simps)

declare fieldsFrom.simps(2) [simp del]

lemmas Fields_simps = Fields_def fieldsFrom_ascii isSpace_def

lemma decimalValue_Nil: "decimalValue [] = 0"
  by (simp add: decimalValue_def)

lemma andThen_Inl [simp]: "andThen (Inl e) f = Inl e"
  by (simp add: andThen_def)

lemma andThen_Inr [simp]: "andThen (Inr x) f = f x"
  by (simp add: andThen_def)

lemma index_in_range [simp]: "i < length xs \<Longrightarrow> index xs i = Inr (xs ! i)"
  by (simp add: index_def)

lemma index_out_of_range [simp]: "\<not> i < length xs \<Longrightarrow> index xs i = Inl IndexOutOfRange"
  by (simp add: index_def)

subsection \<open>ParseUint on decimal tokens\<close>

lemma decimalFrom_ge: "v \<le> decimalFrom v s"
proof (induction s arbitrary: v)
  case Nil
  show ?case by simp
next
  case (Cons ch s)
  have "v \<le> 10 * v + (of_char ch - 48)" by simp
  also have "\<dots> \<le> decimalFrom (10 * v + (of_char ch - 48)) s" by (rule Cons.IH)
  finally show ?case by simp
qed

lemma cutoff_unat: "unat cutoff = 1844674407370955162"
  by (simp add: cutoff_def)

lemma maxVal_max: "\<not> (n :: uint64) > maxVal"
proof -
  have "unat n < 2 ^ 64" using unsigned_less [of n, where ?'a = nat] by simp
  moreover have "unat maxVal = 2 ^ 64 - 1" by (simp add: maxVal_def)
  ultimately show ?thesis by (simp add: word_less_nat_alt)
qed

lemma unat_step:
  fixes n :: uint64
  shows "unat (n * 10 + of_nat d) = (10 * unat n + d) mod 2 ^ 64"
proof -
  have "unat (n * 10 + of_nat d) = (unat (n * 10) + unat (of_nat d :: uint64)) mod 2 ^ 64"
    by (simp add: unat_word_ariths)
  also have "\<dots> = ((unat n * 10) mod 2 ^ 64 + d mod 2 ^ 64) mod 2 ^ 64"
    by (simp add: unat_word_ariths unat_of_nat)
  also have "\<dots> = (10 * unat n + d) mod 2 ^ 64"
    by (simp add: mod_add_eq mult.commute)
  finally show ?thesis .
qed

lemma step_no_overflow:
  fixes n :: uint64
  assumes "n < cutoff" "d < 10" "10 * unat n + d < 2 ^ 64"
  shows "unat (n * 10 + of_nat d) = 10 * unat n + d" "\<not> (n * 10 + of_nat d < n * 10)"
proof -
  show 1: "unat (n * 10 + of_nat d) = 10 * unat n + d"
    using assms(3) by (simp add: unat_step)
  have "unat (n * 10) = (10 * unat n) mod 2 ^ 64"
    using unat_step [of n 0] by simp
  also have "\<dots> = 10 * unat n" using assms(3) by simp
  finally have 2: "unat (n * 10) = 10 * unat n" .
  show "\<not> (n * 10 + of_nat d < n * 10)"
    by (simp add: word_less_nat_alt 1 2)
qed

lemma step_overflow:
  fixes n :: uint64
  assumes "n < cutoff" "d < 10" "\<not> 10 * unat n + d < 2 ^ 64"
  shows "n * 10 + of_nat d < n * 10"
proof -
  have n: "unat n < 1844674407370955162"
    using assms(1) by (simp add: word_less_nat_alt cutoff_unat)
  have "unat (n * 10) = (10 * unat n) mod 2 ^ 64"
    using unat_step [of n 0] by simp
  also have "\<dots> = 10 * unat n" using n by simp
  finally have 2: "unat (n * 10) = 10 * unat n" .
  have "10 * unat n + d < 2 * 2 ^ 64" using n assms(2) by simp
  then have "(10 * unat n + d) mod 2 ^ 64 = 10 * unat n + d - 2 ^ 64"
    using assms(3) by (simp add: mod_if)
  then have "unat (n * 10 + of_nat d) = 10 * unat n + d - 2 ^ 64"
    by (simp add: unat_step)
  moreover have "10 * unat n + d - 2 ^ 64 < 10 * unat n"
    using assms(2,3) by simp
  ultimately show ?thesis
    by (simp add: word_less_nat_alt 2)
qed

lemma parseUintLoop_digits:
  "\<forall>c\<in>set s. isDigit c \<Longrightarrow>
   parseUintLoop s n =
     (if decimalFrom (unat n) s < 2 ^ 64 then (of_nat (decimalFrom (unat n) s), None)
      else (maxVal, Some ErrRange))"
proof (induction s arbitrary: n)
  case Nil
  have "unat n < 2 ^ 64" using unsigned_less [of n, where ?'a = nat] by simp
  then show ?case by simp
next
  case (Cons ch s)
  define c where "c = (of_char ch :: nat)"
  define d where "d = c - 48"
  have dig: "48 \<le> c" "c \<le> 57" using Cons.prems by (simp_all add: isDigit_def c_def)
  then have d: "d < 10" by (simp add: d_def)
  have rest: "\<forall>c\<in>set s. isDigit c" using Cons.prems by simp
  show ?case
  proof (cases "n \<ge> cutoff")
    case True
    then have "1844674407370955162 \<le> unat n" by (simp add: word_le_nat_alt cutoff_unat)
    then have "2 ^ 64 \<le> 10 * unat n + d" by simp
    also have "\<dots> \<le> decimalFrom (10 * unat n + d) s" by (rule decimalFrom_ge)
    finally have "\<not> decimalFrom (unat n) (ch # s) < 2 ^ 64" by (simp add: d_def c_def)
    then show ?thesis using True dig d by (simp add: Let_def c_def [symmetric] d_def [symmetric])
  next
    case False
    then have lt: "n < cutoff" by simp
    show ?thesis
    proof (cases "10 * unat n + d < 2 ^ 64")
      case True
      note st = step_no_overflow [OF lt d True]
      have "parseUintLoop (ch # s) n = parseUintLoop s (n * 10 + of_nat d)"
        using False dig d st(2) maxVal_max
        by (simp add: Let_def c_def [symmetric] d_def [symmetric])
      also have "\<dots> = (if decimalFrom (10 * unat n + d) s < 2 ^ 64
                         then (of_nat (decimalFrom (10 * unat n + d) s), None)
                         else (maxVal, Some ErrRange))"
        using Cons.IH [OF rest, of "n * 10 + of_nat d"] by (simp add: st(1))
      finally show ?thesis by (simp add: d_def c_def)
    next
      case ovf: False
      have "2 ^ 64 \<le> 10 * unat n + d" using ovf by simp
      also have "\<dots> \<le> decimalFrom (10 * unat n + d) s" by (rule decimalFrom_ge)
      finally have "\<not> decimalFrom (unat n) (ch # s) < 2 ^ 64" by (simp add: d_def c_def)
      then show ?thesis
        using False dig d step_overflow [OF lt d ovf]
        by (simp add: Let_def c_def [symmetric] d_def [symmetric])
    qed
  qed
qed

lemma ParseUint_overflow:
  assumes "tok \<noteq> []" "\<forall>c\<in>set tok. isDigit c" "2 ^ 64 - 1 < decimalValue tok"
  shows "ParseUint tok = (maxVal, Some ErrRange)"
  using assms by (simp add: ParseUint_def parseUintLoop_digits decimalValue_def)

subsection \<open>The conversion of a line\<close>

lemma convertLoop_overflow:
  "\<exists>t\<in>set ls. snd (ParseUint t) = Some ErrRange \<Longrightarrow> convertLoop ls nline = Inl ErrRangeError"
proof (induction ls arbitrary: nline)
  case Nil
  then show ?case by simp
next
  case (Cons l ls)
  obtain val err where p: "ParseUint l = (val, err)" by (cases "ParseUint l")
  show ?case
  proof (cases "err = Some ErrRange")
    case True
    then show ?thesis using p by simp
  next
    case False
    then have "\<exists>t\<in>set ls. snd (ParseUint t) = Some ErrRange" using Cons.prems p by auto
    then have "convertLoop ls (nline @ [val]) = Inl ErrRangeError" by (rule Cons.IH)
    then show ?thesis using p False by (auto split: option.splits numError.splits)
  qed
qed










lemma updateState_failure: "updateState line st = Inl e \<Longrightarrow> e = IndexOutOfRange"
  by (auto simp: updateState_def index_def andThen_def split: if_splits)

lemma convertToUint64_overflow:
  assumes "tok \<in> set (tl line)" "snd (ParseUint tok) = Some ErrRange"
  shows "convertToUint64 line = Inl ErrRangeError"
proof -
  have "tl line \<noteq> []" using assms(1) by auto
  then have "\<not> length line < 2" by (cases line) auto
  moreover have "convertLoop (tl line) [] = Inl ErrRangeError"
    using assms by (intro convertLoop_overflow) blast
  ultimately show ?thesis by (simp add: convertToUint64_def)
qed


text \<open>
  Claim C3. A statistics line with a field token that is a decimal number above
  \<open>2^64 - 1\<close>: \<^verbatim>\<open>ParseUint\<close> reports a range error, \<^verbatim>\<open>convertToUint64\<close> returns its
  error and no values, \<^verbatim>\<open>parseStat\<close> returns that error without adding a metric, and
  when the line reaches \<^verbatim>\<open>parseStat\<close> (its mount is set and accepted) the scan ends
  there with the error: the accumulator is as it was, the remaining lines are not read.
\<close>

theorem C3_overflow_aborts_scan:
  assumes "tok \<in> set (tl (Fields text))"
    and "\<forall>c\<in>set tok. isDigit c"
    and "2 ^ 64 - 1 < decimalValue tok"
  shows "ParseUint tok = (maxVal, Some ErrRange) \<and>
         convertToUint64 (Fields text) = Inl ErrRangeError \<and>
         parseStat n mp ex ver (Fields text) a = (a, Some ErrRangeError) \<and>
         (updateState (Fields text) st = Inr st1 \<and> mount st1 \<noteq> [] \<and>
          \<not> skipMount n (mount st1) \<longrightarrow>
            scanLines n (text # rest) st a = (a, Some ErrRangeError))"
proof -
  have "tok \<noteq> []" using assms(3) by (auto simp: decimalValue_Nil)
  then have p: "ParseUint tok = (maxVal, Some ErrRange)"
    using assms(2,3) by (rule ParseUint_overflow)
  then have c: "convertToUint64 (Fields text) = Inl ErrRangeError"
    using assms(1) by (intro convertToUint64_overflow [of tok]) simp_all
  then have s: "\<And>m e v. parseStat n m e v (Fields text) a = (a, Some ErrRangeError)"
    by (simp add: parseStat_def)
  have ne: "length (Fields text) \<noteq> 0" using assms(1) by auto
  have "scanLines n (text # rest) st a = (a, Some ErrRangeError)"
    if "updateState (Fields text) st = Inr st1" "mount st1 \<noteq> []" "\<not> skipMount n (mount st1)"
    using that ne s by (simp add: Let_def)
  then show ?thesis using p c s by blast
qed

theorem C3_witness:
  "scanLines newNFSClient [''READ 10 18446744073709551616 0'', ''READ 1 2 3 4 5 6 7 8'']
     \<lparr>mount = ''/mnt'', version = ''3'', export = ''/export''\<rparr> [] = ([], Some ErrRangeError)"
proof -
  let ?text = "''READ 10 18446744073709551616 0''"
  let ?tok = "''18446744073709551616''"
  let ?st = "\<lparr>mount = ''/mnt'', version = ''3'', export = ''/export''\<rparr>"
  have f: "Fields ?text = [''READ'', ''10'', ?tok, ''0'']"
    by (simp add: Fields_simps)
  have h1: "?tok \<in> set (tl (Fields ?text))" by (simp add: f)
  have h2: "\<forall>c\<in>set ?tok. isDigit c" by (simp add: isDigit_def)
  have h3: "2 ^ 64 - 1 < decimalValue ?tok" by (simp add: decimalValue_def)
  have h4: "updateState (Fields ?text) ?st = Inr ?st \<and> mount ?st \<noteq> [] \<and>
            \<not> skipMount newNFSClient (mount ?st)"
    by (simp add: f updateState_def isBlockStart_def isVersionLine_def Contains_def
        skipMount_def newNFSClient_def)
  show ?thesis
    using C3_overflow_aborts_scan [OF h1 h2 h3, of newNFSClient _ _ _ "[]" ?st ?st] h4
    by blast
qed

subsection \<open>The scanner\<close>

lemma anyMatch_iff: "anyMatch rs s \<longleftrightarrow> (\<exists>r\<in>set rs. r s)"
  by (induction rs) auto

lemma skipMount_iff:
  "\<not> skipMount n m \<longleftrightarrow>
     (includeMountRegex n = [] \<or> (\<exists>r\<in>set (includeMountRegex n). r m)) \<and>
     (\<forall>r\<in>set (excludeMountRegex n). \<not> r m)"
  by (auto simp: skipMount_def anyMatch_iff)

lemma updateState_mount:
  assumes "updateState line st = Inr st1"
  shows "mount st1 = (if isBlockStart line then line ! 4 else mount st)"
  using assms
  by (auto simp: updateState_def index_def andThen_def isBlockStart_def split: if_splits)

lemma updateState_stat_line:
  "\<not> isBlockStart line \<Longrightarrow> \<not> isVersionLine line \<Longrightarrow> updateState line st = Inr st"
  by (simp add: updateState_def)

lemma scanLines_rejected:
  assumes "mount st = [] \<or> skipMount n (mount st)"
    and "\<forall>t\<in>set texts. isBlockStart (Fields t) \<longrightarrow> skipMount n (Fields t ! 4)"
  shows "scanLines n texts st a = (a, None) \<or> scanLines n texts st a = (a, Some IndexOutOfRange)"
  using assms
proof (induction texts arbitrary: st)
  case Nil
  then show ?case by simp
next
  case (Cons raw rest)
  let ?line = "Fields raw"
  show ?case
  proof (cases "length ?line = 0")
    case True
    then have "scanLines n (raw # rest) st a = scanLines n rest st a" by simp
    then show ?thesis using Cons.IH [of st] Cons.prems by simp
  next
    case ne: False
    show ?thesis
    proof (cases "updateState ?line st")
      case (Inl e)
      then have "e = IndexOutOfRange" by (rule updateState_failure)
      then show ?thesis using ne Inl by (simp add: Let_def)
    next
      case (Inr st1)
      have m: "mount st1 = [] \<or> skipMount n (mount st1)"
        using updateState_mount [OF Inr] Cons.prems by auto
      then have "scanLines n (raw # rest) st a = scanLines n rest st1 a"
        using ne Inr by (auto simp: Let_def)
      then show ?thesis using Cons.IH [OF m] Cons.prems(2) by simp
    qed
  qed
qed

lemma updateState_Nil: "updateState [] st = Inr st"
  by (simp add: updateState_def isBlockStart_def isVersionLine_def)

lemma scanLines_rejected_prefix:
  assumes "mount st = [] \<or> skipMount n (mount st)"
    and "\<forall>t\<in>set texts. isBlockStart (Fields t) \<longrightarrow> skipMount n (Fields t ! 4)"
  shows "scanLines n (texts @ rest) st a =
           (case stateAfter texts st of
              Inl p \<Rightarrow> (a, Some p)
            | Inr st' \<Rightarrow> scanLines n rest st' a)"
  using assms
proof (induction texts arbitrary: st)
  case Nil
  then show ?case by simp
next
  case (Cons raw texts)
  let ?line = "Fields raw"
  have later: "\<forall>t\<in>set texts. isBlockStart (Fields t) \<longrightarrow> skipMount n (Fields t ! 4)"
    using Cons.prems(2) by simp
  show ?case
  proof (cases "updateState ?line st")
    case (Inl p)
    then have "?line \<noteq> []" by (auto simp: updateState_Nil)
    then show ?thesis using Inl by (simp add: Let_def)
  next
    case (Inr st1)
    have m: "mount st1 = [] \<or> skipMount n (mount st1)"
      using updateState_mount [OF Inr] Cons.prems by auto
    have "scanLines n ((raw # texts) @ rest) st a = scanLines n (texts @ rest) st1 a"
    proof (cases "?line = []")
      case True
      then have "st1 = st" using Inr by (simp add: updateState_Nil)
      then show ?thesis using True by simp
    next
      case False
      then show ?thesis using Inr m by (auto simp: Let_def)
    qed
    then show ?thesis using Cons.IH [OF m later] Inr by simp
  qed
qed

text \<open>
  Claim C6. The mount filter accepts a path exactly when the include patterns are
  absent or one of them matches, and no exclude pattern matches. A run of lines read
  while the mount is rejected (or not yet set), in which every block-start line sets a
  rejected mount, yields no metric and converts nothing, whatever the lines contain:
  the scan of the run followed by any other lines is the scan of those other lines from
  the state the run leaves, with the accumulator as it was (or the panic of a version
  line of the run).
\<close>

theorem C6_mount_filter:
  "(\<not> skipMount n m \<longleftrightarrow>
      (includeMountRegex n = [] \<or> (\<exists>r\<in>set (includeMountRegex n). r m)) \<and>
      (\<forall>r\<in>set (excludeMountRegex n). \<not> r m)) \<and>
   ((mount st = [] \<or> skipMount n (mount st)) \<and>
    (\<forall>t\<in>set texts. isBlockStart (Fields t) \<longrightarrow> skipMount n (Fields t ! 4)) \<longrightarrow>
      scanLines n (texts @ rest) st a =
        (case stateAfter texts st of
           Inl p \<Rightarrow> (a, Some p)
         | Inr st' \<Rightarrow> scanLines n rest st' a) \<and>
      fst (scanLines n texts st a) = a \<and>
      snd (scanLines n texts st a) \<noteq> Some ErrRangeError)"
proof -
  have "scanLines n (texts @ rest) st a =
        (case stateAfter texts st of
           Inl p \<Rightarrow> (a, Some p)
         | Inr st' \<Rightarrow> scanLines n rest st' a) \<and>
      fst (scanLines n texts st a) = a \<and>
      snd (scanLines n texts st a) \<noteq> Some ErrRangeError"
    if "mount st = [] \<or> skipMount n (mount st)"
      and "\<forall>t\<in>set texts. isBlockStart (Fields t) \<longrightarrow> skipMount n (Fields t ! 4)"
    using scanLines_rejected_prefix [OF that, of rest a] scanLines_rejected [OF that, of a]
    by auto
  then show ?thesis using skipMount_iff [of n m] by blast
qed

lemma scanLines_no_mount:
  assumes "mount st = []"
    and "\<forall>t\<in>set texts. \<not> isBlockStart (Fields t) \<and> \<not> isVersionLine (Fields t)"
  shows "scanLines n (texts @ rest) st a = scanLines n rest st a"
  using assms(2)
proof (induction texts)
  case Nil
  show ?case by simp
next
  case (Cons raw texts)
  have "updateState (Fields raw) st = Inr st"
    using Cons.prems by (simp add: updateState_stat_line)
  then have "scanLines n ((raw # texts) @ rest) st a = scanLines n (texts @ rest) st a"
    using assms(1) by (simp add: Let_def)
  then show ?case using Cons by simp
qed

text \<open>
  Claim C7. Statistics lines (lines that are neither block-start nor version lines) read
  while the mount is empty, that is before any block-start line has set it, are
  discarded: the scan goes on as if they were absent, whatever the configuration and
  their content, and a scan of such lines alone adds no metric and ends without failure.
\<close>

theorem C7_lines_before_mount_discarded:
  assumes "mount st = []"
    and "\<forall>t\<in>set texts. \<not> isBlockStart (Fields t) \<and> \<not> isVersionLine (Fields t)"
  shows "scanLines n (texts @ rest) st a = scanLines n rest st a \<and>
         scanLines n texts st a = (a, None) \<and>
         processText n (texts @ rest) a = processText n rest a \<and>
         processText n texts a = (a, None)"
proof -
  let ?st = "\<lparr>mount = [], version = [], export = []\<rparr>"
  have s1: "scanLines n (texts @ r) st a = scanLines n r st a" for r
    using assms by (rule scanLines_no_mount)
  have s2: "scanLines n (texts @ r) ?st a = scanLines n r ?st a" for r
    using assms(2) by (intro scanLines_no_mount) simp_all
  show ?thesis
    using s1 [of rest] s1 [of "[]"] s2 [of rest] s2 [of "[]"] by (simp add: processText_def)
qed

theorem C7_witness:
  "scanLines newNFSClient [''READ 1 2 3'', ''x 99999999999999999999'', ''y'']
     \<lparr>mount = [], version = ''3'', export = []\<rparr> [] = ([], None) \<and>
   processText newNFSClient [''READ 1 2 3'', ''x 99999999999999999999'', ''y''] [] = ([], None)"
proof -
  have f: "Fields ''READ 1 2 3'' = [''READ'', ''1'', ''2'', ''3'']"
    "Fields ''x 99999999999999999999'' = [''x'', ''99999999999999999999'']"
    "Fields ''y'' = [''y'']"
    by (simp_all add: Fields_simps)
  have h1: "mount \<lparr>mount = [], version = ''3'', export = []\<rparr> = []" by simp
  have h2: "\<forall>t\<in>set [''READ 1 2 3'', ''x 99999999999999999999'', ''y''].
          \<not> isBlockStart (Fields t) \<and> \<not> isVersionLine (Fields t)"
    by (simp add: f isBlockStart_def isVersionLine_def)
  show ?thesis
    using C7_lines_before_mount_discarded [OF h1 h2, of newNFSClient "[]" "[]"] by blast
qed

lemma Split_no_sep: "sep \<notin> set s \<Longrightarrow> Split s sep = [s]"
  by (induction s) (auto simp: Let_def)

text \<open>
  Claim C8. A line with more than 5 tokens that contains the marker \<^verbatim>\<open>(nfs)\<close> or
  \<^verbatim>\<open>(nfs4)\<close>, is not a block-start line, and whose token 5 has no \<^verbatim>\<open>/\<close>: the
  split of token 5 has one part, reading its second part is out of range, and the scan
  panics there instead of completing or returning an error.
\<close>

theorem C8_version_without_slash_panics:
  assumes "\<not> isBlockStart (Fields text)"
    and "isVersionLine (Fields text)"
    and "CHR ''/'' \<notin> set (Fields text ! 5)"
  shows "scanLines n (text # rest) st a = (a, Some IndexOutOfRange) \<and>
         processText n (text # rest) a = (a, Some IndexOutOfRange)"
proof -
  have len: "5 < length (Fields text)" using assms(2) by (simp add: isVersionLine_def)
  have "Split (Fields text ! 5) CHR ''/'' = [Fields text ! 5]"
    using assms(3) by (rule Split_no_sep)
  then have "updateState (Fields text) st' = Inl IndexOutOfRange" for st'
    using assms(1,2) len by (simp add: updateState_def)
  moreover have "length (Fields text) \<noteq> 0" using len by auto
  ultimately have "scanLines n (text # rest) st' a = (a, Some IndexOutOfRange)" for st'
    by (simp add: Let_def)
  then show ?thesis by (simp add: processText_def)
qed

theorem C8_witness:
  "processText newNFSClient [''a b c d e f (nfs)'', ''READ 1 2 3 4 5 6 7 8''] [] =
     ([], Some IndexOutOfRange)"
proof -
  have f: "Fields ''a b c d e f (nfs)'' = [''a'', ''b'', ''c'', ''d'', ''e'', ''f'', ''(nfs)'']"
    by (simp add: Fields_simps)
  have h1: "\<not> isBlockStart (Fields ''a b c d e f (nfs)'')"
    by (simp add: f isBlockStart_def Contains_def)
  have h2: "isVersionLine (Fields ''a b c d e f (nfs)'')"
    by (simp add: f isVersionLine_def Contains_def)
  have h3: "CHR ''/'' \<notin> set (Fields ''a b c d e f (nfs)'' ! 5)"
    by (simp add: f)
  show ?thesis
    using C8_version_without_slash_panics [OF h1 h2 h3] by blast
qed

subsection \<open>READ and WRITE lines\<close>

lemma assignOps_ok:
  "length ts + i \<le> length names \<Longrightarrow> \<exists>fs'. assignOps ts i names fs = Inr fs'"
  by (induction ts arbitrary: i fs) simp_all

lemma assignOps_other:
  "assignOps ts i names fs = Inr fs' \<Longrightarrow> k \<notin> set (take (length ts) (drop i names)) \<Longrightarrow>
   fs' k = fs k"
proof (induction ts arbitrary: i fs)
  case Nil
  then show ?case by simp
next
  case (Cons t ts)
  from Cons.prems(1) have i: "i < length names"
    by (cases "i < length names") simp_all
  then have step: "assignOps ts (Suc i) names (fs(names ! i \<mapsto> Uint64 t)) = Inr fs'"
    using Cons.prems(1) by simp
  have tk: "take (length (t # ts)) (drop i names) =
            names ! i # take (length ts) (drop (Suc i) names)"
    using i by (simp add: Cons_nth_drop_Suc [symmetric])
  then have "k \<noteq> names ! i" "k \<notin> set (take (length ts) (drop (Suc i) names))"
    using Cons.prems(2) by simp_all
  then show ?case using Cons.IH [OF step] by simp
qed

lemma assignOps_nth:
  "distinct names \<Longrightarrow> assignOps ts i names fs = Inr fs' \<Longrightarrow> j < length ts \<Longrightarrow>
   fs' (names ! (i + j)) = Some (Uint64 (ts ! j))"
proof (induction ts arbitrary: i fs j)
  case Nil
  then show ?case by simp
next
  case (Cons t ts)
  from Cons.prems(2) have i: "i < length names"
    by (cases "i < length names") simp_all
  then have step: "assignOps ts (Suc i) names (fs(names ! i \<mapsto> Uint64 t)) = Inr fs'"
    using Cons.prems(2) by simp
  show ?case
  proof (cases j)
    case 0
    have "names ! i \<notin> set (drop (Suc i) names)"
      using Cons.prems(1) i
      by (metis Cons_nth_drop_Suc distinct.simps(2) distinct_drop)
    then have "names ! i \<notin> set (take (length ts) (drop (Suc i) names))"
      by (meson in_set_takeD)
    then have "fs' (names ! i) = (fs(names ! i \<mapsto> Uint64 t)) (names ! i)"
      by (rule assignOps_other [OF step])
    then show ?thesis using 0 by simp
  next
    case (Suc j')
    then have "fs' (names ! (Suc i + j')) = Some (Uint64 (ts ! j'))"
      using Cons.prems(3) by (intro Cons.IH [OF Cons.prems(1) step]) simp
    then show ?thesis using Suc by simp
  qed
qed

lemma distinct_nfsopFields: "distinct nfsopFields"
  by (simp add: nfsopFields_def)

lemma length_nfsopFields: "length nfsopFields = 9"
  by (simp add: nfsopFields_def)

lemma basicStat_ok:
  assumes "first = ''READ'' \<or> first = ''WRITE''" and "8 \<le> length nline"
    and "curFields s = Map.empty"
  shows "basicStat first nline s =
           Inr (emit ''nfsstat''
                  (s\<lparr>curFields := basicFields nline,
                      curTags := (curTags s)(''operation'' \<mapsto> first)\<rparr>))"
proof -
  have "nline \<noteq> []" using assms(2) by auto
  then have "index nline 0 = Inr (nline ! 0)" by (simp add: index_def)
  then show ?thesis using assms by (auto simp: basicStat_def basicFields_def Let_def)
qed

lemma fullStat_other:
  "first \<noteq> ''events'' \<Longrightarrow> first \<noteq> ''bytes'' \<Longrightarrow> first \<noteq> ''xprt'' \<Longrightarrow>
   fullStat first line nline s = Inr s"
  by (simp add: fullStat_def)

lemma opStat_result:
  assumes "length nline \<le> 9"
  shows "opStat n ver first nline s = Inr s \<or>
         (((ver = ''3'' \<and> lookupOp (nfs3Ops n) first) \<or> (ver = ''4'' \<and> lookupOp (nfs4Ops n) first)) \<and>
          (\<exists>fs. assignOps nline 0 nfsopFields (curFields s) = Inr fs \<and>
             opStat n ver first nline s =
               Inr (emit ''nfs_ops'' (s\<lparr>curTags := (curTags s)(''operation'' \<mapsto> first), curFields := fs\<rparr>))))"
proof -
  obtain fs where "assignOps nline 0 nfsopFields (curFields s) = Inr fs"
    using assignOps_ok [of nline 0 nfsopFields "curFields s"] assms
    by (auto simp: length_nfsopFields)
  then show ?thesis by (auto simp: opStat_def Let_def length_nfsopFields assms)
qed

lemma convertToUint64_length:
  assumes "convertToUint64 line = Inr nline" and "nline \<noteq> []"
  shows "2 \<le> length line"
  using assms by (cases "length line < 2") (simp_all add: convertToUint64_def)

lemma first_not_full:
  "first = ''READ'' \<or> first = ''WRITE'' \<Longrightarrow>
   first \<noteq> ''events'' \<and> first \<noteq> ''bytes'' \<and> first \<noteq> ''xprt''"
  by auto

text \<open>What \<^verbatim>\<open>parseStat\<close> adds for a READ or WRITE line with at least 8 numeric fields.\<close>

lemma parseStat_read_write:
  assumes conv: "convertToUint64 line = Inr nline"
    and len: "8 \<le> length nline"
    and first: "first = Replace1 (line ! 0) CHR '':'' []"
    and rw: "first = ''READ'' \<or> first = ''WRITE''"
  shows "\<exists>ms. parseStat n mp ex ver line a =
           (a @ \<lparr>measurement = ''nfsstat'', metricFields = basicFields nline,
                 metricTags = statTags mp ex first\<rparr> # ms, None) \<and>
         (ms = [] \<or>
          (\<exists>fs. assignOps nline 0 nfsopFields (basicFields nline) = Inr fs \<and>
             ms = [\<lparr>measurement = ''nfs_ops'', metricFields = fs,
                    metricTags = statTags mp ex first\<rparr>])) \<and>
         (Fullstat n \<and> length nline \<le> 9 \<and>
          ((ver = ''3'' \<and> lookupOp (nfs3Ops n) first) \<or>
           (ver = ''4'' \<and> lookupOp (nfs4Ops n) first)) \<longrightarrow> ms \<noteq> []) \<and>
         (\<not> Fullstat n \<longrightarrow> ms = [])"
proof -
  let ?s0 = "\<lparr>curFields = Map.empty,
              curTags = [''mountpoint'' \<mapsto> mp, ''serverexport'' \<mapsto> ex],
              curAcc = a\<rparr>"
  let ?m1 = "\<lparr>measurement = ''nfsstat'', metricFields = basicFields nline,
              metricTags = statTags mp ex first\<rparr>"
  let ?s1 = "\<lparr>curFields = basicFields nline, curTags = statTags mp ex first,
              curAcc = a @ [?m1]\<rparr>"
  have ne: "nline \<noteq> []" using len by auto
  then have "line \<noteq> []"
    using convertToUint64_length [OF conv] by auto
  then have l0: "index line 0 = Inr (line ! 0)" by (simp add: index_def)
  have b: "basicStat first nline ?s0 = Inr ?s1"
    using basicStat_ok [OF rw len, of ?s0]
    by (simp add: emit_def AddFields_def statTags_def)
  have f: "fullStat first line nline ?s1 = Inr ?s1"
    using first_not_full [OF rw] by (simp add: fullStat_other)
  have p: "parseStat n mp ex ver line a =
             (if Fullstat n then
                (case opStat n ver first nline ?s1 of
                   Inl p \<Rightarrow> (curAcc ?s1, Some p)
                 | Inr s3 \<Rightarrow> (curAcc s3, None))
              else (a @ [?m1], None))"
    using ne l0 b f by (simp add: parseStat_def conv classifyStat_def first [symmetric])
  show ?thesis
  proof (cases "Fullstat n")
    case False
    then show ?thesis using p by simp
  next
    case full: True
    let ?tracked = "(ver = ''3'' \<and> lookupOp (nfs3Ops n) first) \<or>
                    (ver = ''4'' \<and> lookupOp (nfs4Ops n) first)"
    show ?thesis
    proof (cases "?tracked \<and> length nline \<le> 9")
      case True
      then obtain fs where fs: "assignOps nline 0 nfsopFields (basicFields nline) = Inr fs"
        using assignOps_ok [of nline 0 nfsopFields "basicFields nline"]
        by (auto simp: length_nfsopFields)
      have "opStat n ver first nline ?s1 =
              Inr (emit ''nfs_ops'' (?s1\<lparr>curFields := fs\<rparr>))"
        using True fs by (simp add: opStat_def length_nfsopFields statTags_def)
      then have "parseStat n mp ex ver line a =
                   (a @ [?m1, \<lparr>measurement = ''nfs_ops'', metricFields = fs,
                                metricTags = statTags mp ex first\<rparr>], None)"
        using p full by (simp add: emit_def AddFields_def)
      then show ?thesis using fs full by simp
    next
      case False
      then have "\<exists>s3. opStat n ver first nline ?s1 = Inr s3 \<and> curAcc s3 = a @ [?m1]"
        by (auto simp: opStat_def length_nfsopFields Let_def)
      then show ?thesis using p full False by auto
    qed
  qed
qed

text \<open>
  Claim C10. A READ or WRITE line with at least 8 numeric fields whose second field is
  smaller than its first: the basic metric is added, and its field \<^verbatim>\<open>retrans\<close> is the
  difference of the two \<^verbatim>\<open>uint64\<close> values, that is \<open>(field[1] - field[0]) mod 2^64\<close>,
  which equals \<open>2^64 - (field[0] - field[1])\<close>: it is not zero, and it is at least
  \<open>2^64 - field[0]\<close>.
\<close>

theorem C10_retrans_wraps:
  assumes "convertToUint64 line = Inr nline"
    and "8 \<le> length nline"
    and "first = Replace1 (line ! 0) CHR '':'' []"
    and "first = ''READ'' \<or> first = ''WRITE''"
    and "nline ! 1 < nline ! 0"
  shows "\<exists>m ms. parseStat n mp ex ver line a = (a @ m # ms, None) \<and>
           measurement m = ''nfsstat'' \<and>
           metricFields m ''retrans'' = Some (Uint64 (nline ! 1 - nline ! 0)) \<and>
           uint (nline ! 1 - nline ! 0) = (uint (nline ! 1) - uint (nline ! 0)) mod 2 ^ 64 \<and>
           uint (nline ! 1 - nline ! 0) = 2 ^ 64 - (uint (nline ! 0) - uint (nline ! 1)) \<and>
           nline ! 1 - nline ! 0 \<noteq> 0 \<and>
           2 ^ 64 - uint (nline ! 0) \<le> uint (nline ! 1 - nline ! 0)"
proof -
  let ?x = "nline ! 0" and ?y = "nline ! 1"
  obtain ms where p: "parseStat n mp ex ver line a =
      (a @ \<lparr>measurement = ''nfsstat'', metricFields = basicFields nline,
            metricTags = statTags mp ex first\<rparr> # ms, None)"
    using parseStat_read_write [OF assms(1-4)] by blast
  have r: "basicFields nline ''retrans'' = Some (Uint64 (?y - ?x))"
    by (simp add: basicFields_def)
  have lt: "uint ?y < uint ?x" using assms(5) by (simp add: word_less_def)
  have bx: "uint ?x < 2 ^ 64" using uint_lt2p [of ?x] by simp
  have by0: "0 \<le> uint ?y" by simp
  have m: "uint (?y - ?x) = (uint ?y - uint ?x) mod 2 ^ 64"
    by (simp add: uint_word_ariths)
  have "(uint ?y - uint ?x) mod 2 ^ 64 = (uint ?y - uint ?x + 2 ^ 64) mod 2 ^ 64"
    by simp
  also have "\<dots> = uint ?y - uint ?x + 2 ^ 64"
  proof (rule mod_pos_pos_trivial)
    show "0 \<le> uint ?y - uint ?x + 2 ^ 64" using bx uint_ge_0 [of ?y] by linarith
    show "uint ?y - uint ?x + 2 ^ 64 < 2 ^ 64" using lt by linarith
  qed
  finally have w: "uint (?y - ?x) = 2 ^ 64 - (uint ?x - uint ?y)"
    using m by simp
  have nz: "?y - ?x \<noteq> 0" using assms(5) by auto
  have big: "2 ^ 64 - uint ?x \<le> uint (?y - ?x)" using w uint_ge_0 [of ?y] by linarith
  show ?thesis using p r m w nz big by simp
qed

subsection \<open>The operation tables of Init\<close>

lemma lookupOp_setOps: "lookupOp (setOps ops m) k \<longleftrightarrow> k \<in> set ops \<or> lookupOp m k"
  by (induction ops arbitrary: m) (auto simp: lookupOp_def)

lemma lookupOp_excludeOps:
  "excludeOps xs (m3, m4) = (r3, r4) \<Longrightarrow>
   (lookupOp r3 k \<longleftrightarrow> lookupOp m3 k \<and> k \<notin> set xs) \<and>
   (lookupOp r4 k \<longleftrightarrow> lookupOp m4 k \<and> k \<notin> set xs)"
proof (induction xs arbitrary: m3 m4)
  case Nil
  then show ?case by simp
next
  case (Cons x xs)
  let ?m3 = "if lookupOp m3 x then m3(x := None) else m3"
  let ?m4 = "if lookupOp m4 x then m4(x := None) else m4"
  have "excludeOps xs (?m3, ?m4) = (r3, r4)" using Cons.prems by simp
  then have "(lookupOp r3 k \<longleftrightarrow> lookupOp ?m3 k \<and> k \<notin> set xs) \<and>
             (lookupOp r4 k \<longleftrightarrow> lookupOp ?m4 k \<and> k \<notin> set xs)"
    by (rule Cons.IH)
  moreover have "lookupOp ?m3 k \<longleftrightarrow> lookupOp m3 k \<and> k \<noteq> x"
    by (auto simp: lookupOp_def)
  moreover have "lookupOp ?m4 k \<longleftrightarrow> lookupOp m4 k \<and> k \<noteq> x"
    by (auto simp: lookupOp_def)
  ultimately show ?case by auto
qed

lemma lookupOp_empty: "\<not> lookupOp Map.empty k"
  by (simp add: lookupOp_def)

lemma initOps_tracked:
  "(lookupOp (fst (initOps n)) k \<longleftrightarrow>
      k \<in> set (if IncludeOperations n = [] then nfs3Fields else IncludeOperations n) \<and>
      k \<notin> set (ExcludeOperations n)) \<and>
   (lookupOp (snd (initOps n)) k \<longleftrightarrow>
      k \<in> set (if IncludeOperations n = [] then nfs4Fields else IncludeOperations n) \<and>
      k \<notin> set (ExcludeOperations n))"
proof -
  let ?i3 = "if IncludeOperations n = [] then nfs3Fields else IncludeOperations n"
  let ?i4 = "if IncludeOperations n = [] then nfs4Fields else IncludeOperations n"
  let ?m3 = "setOps ?i3 Map.empty" and ?m4 = "setOps ?i4 Map.empty"
  have m: "lookupOp ?m3 k \<longleftrightarrow> k \<in> set ?i3" "lookupOp ?m4 k \<longleftrightarrow> k \<in> set ?i4"
    by (simp_all only: lookupOp_setOps lookupOp_empty simp_thms)
  show ?thesis
  proof (cases "ExcludeOperations n = []")
    case True
    then have "initOps n = (?m3, ?m4)" by (simp add: initOps_def)
    then show ?thesis using m True by simp
  next
    case False
    obtain r3 r4 where r: "excludeOps (ExcludeOperations n) (?m3, ?m4) = (r3, r4)"
      by (cases "excludeOps (ExcludeOperations n) (?m3, ?m4)")
    then have "initOps n = (r3, r4)" using False by (auto simp: initOps_def)
    then show ?thesis using lookupOp_excludeOps [OF r, of k] m by simp
  qed
qed

lemma Init_ops:
  assumes "Init compile mountProc n = Inr n'"
  shows "nfs3Ops n' = fst (initOps n) \<and> nfs4Ops n' = snd (initOps n) \<and>
         Fullstat n' = Fullstat n"
  using assms
  by (auto simp: Init_def Let_def split: prod.splits sum.splits if_splits)

text \<open>
  Claim C4, as amended. With a non-empty include list, an operation name is tracked for
  version 3, and likewise for version 4, exactly when it is in the include list and not
  in the exclude list. \<^verbatim>\<open>Init\<close> does not intersect the lists with the vocabulary of a
  version.
\<close>

theorem C4_tracked_operations:
  assumes "IncludeOperations n \<noteq> []"
    and "Init compile mountProc n = Inr n'"
  shows "(lookupOp (nfs3Ops n') operation \<longleftrightarrow>
            operation \<in> set (IncludeOperations n) \<and> operation \<notin> set (ExcludeOperations n)) \<and>
         (lookupOp (nfs4Ops n') operation \<longleftrightarrow>
            operation \<in> set (IncludeOperations n) \<and> operation \<notin> set (ExcludeOperations n))"
  using Init_ops [OF assms(2)] initOps_tracked [of n operation] assms(1) by simp

lemma Init_open:
  "Init noPattern [] (newNFSClient\<lparr>IncludeOperations := [''OPEN'', ''READ''],
                                   ExcludeOperations := [''READ'']\<rparr>) =
     Inr (newNFSClient\<lparr>IncludeOperations := [''OPEN'', ''READ''],
                       ExcludeOperations := [''READ''],
                       nfs3Ops := [''OPEN'' \<mapsto> True], nfs4Ops := [''OPEN'' \<mapsto> True],
                       mountstatsPath := ''/proc/self/mountstats''\<rparr>)"
  by (simp add: Init_def initOps_def newNFSClient_def getMountStatsPath_def lookupOp_def)

theorem C4_witness:
  "lookupOp (nfs3Ops (projr (Init noPattern []
      (newNFSClient\<lparr>IncludeOperations := [''OPEN'', ''READ''],
                     ExcludeOperations := [''READ'']\<rparr>)))) ''OPEN'' \<and>
   lookupOp (nfs4Ops (projr (Init noPattern []
      (newNFSClient\<lparr>IncludeOperations := [''OPEN'', ''READ''],
                     ExcludeOperations := [''READ'']\<rparr>)))) ''OPEN'' \<and>
   \<not> lookupOp (nfs4Ops (projr (Init noPattern []
      (newNFSClient\<lparr>IncludeOperations := [''OPEN'', ''READ''],
                     ExcludeOperations := [''READ'']\<rparr>)))) ''READ''"
proof -
  have h: "IncludeOperations (newNFSClient\<lparr>IncludeOperations := [''OPEN'', ''READ''],
                                ExcludeOperations := [''READ'']\<rparr>) \<noteq> []"
    by simp
  show ?thesis
    using C4_tracked_operations [OF h Init_open, of "''OPEN''"]
      C4_tracked_operations [OF h Init_open, of "''READ''"]
    by (simp add: Init_open)
qed

text \<open>
  The claim as stated fails: \<^verbatim>\<open>OPEN\<close> is no operation of version 3, and with the
  include list \<^verbatim>\<open>OPEN, READ\<close> it is tracked for version 3.
\<close>

theorem C4_counterexample:
  "\<not> (lookupOp (nfs3Ops (projr (Init noPattern []
          (newNFSClient\<lparr>IncludeOperations := [''OPEN'', ''READ''],
                         ExcludeOperations := [''READ'']\<rparr>)))) ''OPEN'' \<longleftrightarrow>
       ''OPEN'' \<in> set [''OPEN'', ''READ''] \<and> ''OPEN'' \<notin> set [''READ''] \<and>
       ''OPEN'' \<in> set nfs3Fields)"
  by (simp add: Init_open lookupOp_def nfs3Fields_def)

subsection \<open>Evaluation on concrete lines\<close>

lemma ParseUint_decimal:
  assumes "tok \<noteq> []" "\<forall>c\<in>set tok. isDigit c" "decimalValue tok < 2 ^ 64"
  shows "ParseUint tok = (of_nat (decimalValue tok), None)"
  using assms by (simp add: ParseUint_def parseUintLoop_digits decimalValue_def)

lemma ParseUint_not_digit:
  "\<not> isDigit c \<Longrightarrow> ParseUint (c # cs) = (0, Some ErrSyntax)"
  by (auto simp: ParseUint_def isDigit_def Let_def)

lemmas convert_simps =
  convertToUint64_def ParseUint_decimal ParseUint_not_digit isDigit_def decimalValue_def

lemma Init_fullstat: "Init noPattern [] (newNFSClient\<lparr>Fullstat := True\<rparr>) = Inr fullstatClient"
  by (simp add: Init_def initOps_def newNFSClient_def getMountStatsPath_def fullstatClient_def)

lemma fullstatClient_simps:
  "Fullstat fullstatClient" "includeMountRegex fullstatClient = []"
  "excludeMountRegex fullstatClient = []"
  "lookupOp (nfs3Ops fullstatClient) k \<longleftrightarrow> k \<in> set nfs3Fields"
  "lookupOp (nfs4Ops fullstatClient) k \<longleftrightarrow> k \<in> set nfs4Fields"
  by (simp_all add: fullstatClient_def newNFSClient_def lookupOp_setOps lookupOp_empty)


lemma convert_read_wrapped:
  "convertToUint64 [''READ:'', ''10'', ''3'', ''0'', ''100'', ''0'', ''50'', ''5'', ''0''] =
     Inr [10, 3, 0, 100, 0, 50, 5, 0]"
  by (simp add: convert_simps)

theorem C10_witness:
  "\<exists>m ms r. parseStat newNFSClient ''/mnt'' ''/export'' ''3''
       [''READ:'', ''10'', ''3'', ''0'', ''100'', ''0'', ''50'', ''5'', ''0''] [] = (m # ms, None) \<and>
     metricFields m ''retrans'' = Some (Uint64 r) \<and> uint r = 18446744073709551609"
proof -
  let ?line = "[''READ:'', ''10'', ''3'', ''0'', ''100'', ''0'', ''50'', ''5'', ''0'']"
  let ?nline = "[10, 3, 0, 100, 0, 50, 5, 0] :: uint64 list"
  have h2: "8 \<le> length ?nline" by simp
  have h3: "''READ'' = Replace1 (?line ! 0) CHR '':'' []" by simp
  have h4: "''READ'' = ''READ'' \<or> ''READ'' = ''WRITE''" by simp
  have h5: "?nline ! 1 < ?nline ! 0" by simp
  obtain m ms where
    p: "parseStat newNFSClient ''/mnt'' ''/export'' ''3'' ?line [] = ([] @ m # ms, None)"
    and r: "metricFields m ''retrans'' = Some (Uint64 (?nline ! 1 - ?nline ! 0))"
    and u: "uint (?nline ! 1 - ?nline ! 0) = 2 ^ 64 - (uint (?nline ! 0) - uint (?nline ! 1))"
    using C10_retrans_wraps [OF convert_read_wrapped h2 h3 h4 h5,
        of newNFSClient "''/mnt''" "''/export''" "''3''" "[]"]
    by blast
  have "uint (?nline ! 1 - ?nline ! 0) = 18446744073709551609" using u by simp
  then show ?thesis using p r by auto
qed

text \<open>
  Claim C9. A READ or WRITE line with 8 or 9 numeric fields, with full statistics on and
  the operation tracked for the current version: \<^verbatim>\<open>parseStat\<close> adds the basic metric and
  then the per-operation metric, whose field map is the map of the basic metric with
  the named operation fields written over it. It therefore holds \<^verbatim>\<open>retrans\<close>,
  \<^verbatim>\<open>bytes\<close>, \<^verbatim>\<open>rtt\<close>, \<^verbatim>\<open>exe\<close> and \<^verbatim>\<open>rtt_per_op\<close> with their basic values, besides
  one operation field per numeric field of the line.
\<close>

theorem C9_ops_metric_keeps_basic_fields:
  assumes "convertToUint64 line = Inr nline"
    and "8 \<le> length nline"
    and "first = Replace1 (line ! 0) CHR '':'' []"
    and "first = ''READ'' \<or> first = ''WRITE''"
    and "Fullstat n"
    and "length nline \<le> 9"
    and "(ver = ''3'' \<and> lookupOp (nfs3Ops n) first) \<or> (ver = ''4'' \<and> lookupOp (nfs4Ops n) first)"
  shows "\<exists>m1 m2. parseStat n mp ex ver line a = (a @ [m1, m2], None) \<and>
           measurement m1 = ''nfsstat'' \<and> measurement m2 = ''nfs_ops'' \<and>
           metricFields m1 = basicFields nline \<and>
           (\<forall>k\<in>{''retrans'', ''bytes'', ''rtt'', ''exe'', ''rtt_per_op''}.
              metricFields m2 k = metricFields m1 k \<and> metricFields m1 k \<noteq> None) \<and>
           (\<forall>k. k \<notin> set (take (length nline) nfsopFields) \<longrightarrow>
              metricFields m2 k = metricFields m1 k) \<and>
           (\<forall>i<length nline. metricFields m2 (nfsopFields ! i) = Some (Uint64 (nline ! i)))"
proof -
  let ?m1 = "\<lparr>measurement = ''nfsstat'', metricFields = basicFields nline,
              metricTags = statTags mp ex first\<rparr>"
  obtain ms where p: "parseStat n mp ex ver line a = (a @ ?m1 # ms, None)"
    and ms: "ms = [] \<or>
          (\<exists>fs. assignOps nline 0 nfsopFields (basicFields nline) = Inr fs \<and>
             ms = [\<lparr>measurement = ''nfs_ops'', metricFields = fs,
                    metricTags = statTags mp ex first\<rparr>])"
    and ne: "ms \<noteq> []"
    using parseStat_read_write [OF assms(1-4), of n mp ex ver a] assms(5-7) by blast
  then obtain fs where fs: "assignOps nline 0 nfsopFields (basicFields nline) = Inr fs"
    and ms': "ms = [\<lparr>measurement = ''nfs_ops'', metricFields = fs,
                    metricTags = statTags mp ex first\<rparr>]"
    by blast
  have other: "fs k = basicFields nline k" if "k \<notin> set (take (length nline) nfsopFields)" for k
    using assignOps_other [OF fs, of k] that by simp
  have basic: "fs k = basicFields nline k \<and> basicFields nline k \<noteq> None"
    if "k \<in> {''retrans'', ''bytes'', ''rtt'', ''exe'', ''rtt_per_op''}" for k
  proof -
    have "k \<notin> set nfsopFields" using that by (auto simp: nfsopFields_def)
    then have "k \<notin> set (take (length nline) nfsopFields)" by (meson in_set_takeD)
    then have "fs k = basicFields nline k" by (rule other)
    moreover have "basicFields nline k \<noteq> None" using that by (auto simp: basicFields_def)
    ultimately show ?thesis by simp
  qed
  have nth: "fs (nfsopFields ! i) = Some (Uint64 (nline ! i))" if "i < length nline" for i
    using assignOps_nth [OF distinct_nfsopFields fs that] by simp
  show ?thesis using p ms' other basic nth by auto
qed

lemma convert_read_tracked:
  "convertToUint64 [''READ:'', ''10'', ''10'', ''0'', ''100'', ''0'', ''50'', ''5'', ''7'', ''1''] =
     Inr [10, 10, 0, 100, 0, 50, 5, 7, 1]"
  by (simp add: convert_simps)

theorem C9_witness:
  "\<exists>m1 m2. parseStat fullstatClient ''/mnt'' ''/export'' ''3''
       [''READ:'', ''10'', ''10'', ''0'', ''100'', ''0'', ''50'', ''5'', ''7'', ''1''] [] =
         ([m1, m2], None) \<and>
     measurement m2 = ''nfs_ops'' \<and>
     metricFields m2 ''retrans'' = Some (Uint64 0) \<and>
     metricFields m2 ''bytes'' = Some (Uint64 100) \<and>
     metricFields m2 ''rtt'' = Some (Uint64 5) \<and>
     metricFields m2 ''exe'' = Some (Uint64 7) \<and>
     metricFields m2 ''rtt_per_op'' = metricFields m1 ''rtt_per_op'' \<and>
     metricFields m2 ''errors'' = Some (Uint64 1)"
proof -
  let ?line = "[''READ:'', ''10'', ''10'', ''0'', ''100'', ''0'', ''50'', ''5'', ''7'', ''1'']"
  let ?nline = "[10, 10, 0, 100, 0, 50, 5, 7, 1] :: uint64 list"
  have h2: "8 \<le> length ?nline" and h6: "length ?nline \<le> 9" by simp_all
  have h3: "''READ'' = Replace1 (?line ! 0) CHR '':'' []" by simp
  have h4: "''READ'' = ''READ'' \<or> ''READ'' = ''WRITE''" by simp
  have h5: "Fullstat fullstatClient" by (simp add: fullstatClient_simps)
  have h7: "(''3'' = ''3'' \<and> lookupOp (nfs3Ops fullstatClient) ''READ'') \<or>
            (''3'' = ''4'' \<and> lookupOp (nfs4Ops fullstatClient) ''READ'')"
    by (simp add: fullstatClient_simps nfs3Fields_def)
  obtain m1 m2 where
    p: "parseStat fullstatClient ''/mnt'' ''/export'' ''3'' ?line [] = ([] @ [m1, m2], None)"
    and m: "measurement m2 = ''nfs_ops''" "metricFields m1 = basicFields ?nline"
    and b: "\<forall>k\<in>{''retrans'', ''bytes'', ''rtt'', ''exe'', ''rtt_per_op''}.
              metricFields m2 k = metricFields m1 k \<and> metricFields m1 k \<noteq> None"
    and o: "\<forall>i<length ?nline. metricFields m2 (nfsopFields ! i) = Some (Uint64 (?nline ! i))"
    using C9_ops_metric_keeps_basic_fields [OF convert_read_tracked h2 h3 h4 h5 h6 h7,
        of "''/mnt''" "''/export''" "[]"]
    by blast
  have "metricFields m2 (nfsopFields ! 8) = Some (Uint64 (?nline ! 8))"
    by (intro o [rule_format]) simp
  then have e: "metricFields m2 ''errors'' = Some (Uint64 1)"
    by (simp add: nfsopFields_def)
  have b': "metricFields m2 k = basicFields ?nline k"
    if "k \<in> {''retrans'', ''bytes'', ''rtt'', ''exe'', ''rtt_per_op''}" for k
    using b m(2) that by metis
  have "metricFields m2 ''retrans'' = Some (Uint64 0)"
    "metricFields m2 ''bytes'' = Some (Uint64 100)"
    "metricFields m2 ''rtt'' = Some (Uint64 5)"
    "metricFields m2 ''exe'' = Some (Uint64 7)"
    "metricFields m2 ''rtt_per_op'' = metricFields m1 ''rtt_per_op''"
    by (simp_all add: b' m(2) basicFields_def)
  then show ?thesis using p m(1) e by simp
qed

subsection \<open>The scenario of the specification\<close>

lemma parseStat_no_category:
  assumes conv: "convertToUint64 line = Inr nline"
    and first: "first = Replace1 (line ! 0) CHR '':'' []"
    and rw: "first \<noteq> ''READ''" "first \<noteq> ''WRITE''"
    and other: "\<not> Fullstat n \<or>
       (first \<noteq> ''events'' \<and> first \<noteq> ''bytes'' \<and> first \<noteq> ''xprt'' \<and>
        \<not> (ver = ''3'' \<and> lookupOp (nfs3Ops n) first) \<and>
        \<not> (ver = ''4'' \<and> lookupOp (nfs4Ops n) first))"
  shows "parseStat n mp ex ver line a = (a, None)"
proof (cases "nline = []")
  case True
  then show ?thesis by (simp add: parseStat_def conv classifyStat_def)
next
  case False
  then have "line \<noteq> []" using convertToUint64_length [OF conv] by auto
  then have l0: "index line 0 = Inr (line ! 0)" by (simp add: index_def)
  show ?thesis
    using False l0 rw other
    by (auto simp: parseStat_def conv classifyStat_def first [symmetric] basicStat_def
        fullStat_other opStat_def Let_def)
qed



lemma fields_read_line:
  "Fields ''READ 10 10 0 100 0 50 5 0'' =
     [''READ'', ''10'', ''10'', ''0'', ''100'', ''0'', ''50'', ''5'', ''0'']"
  by (simp add: Fields_simps)



lemma convert_read_line:
  "convertToUint64 [''READ'', ''10'', ''10'', ''0'', ''100'', ''0'', ''50'', ''5'', ''0''] =
     Inr [10, 10, 0, 100, 0, 50, 5, 0]"
  by (simp add: convert_simps)





lemma skipMount_new: "\<not> skipMount newNFSClient m"
  by (simp add: skipMount_def newNFSClient_def)



subsection \<open>Lines with too few fields\<close>

lemma fields_block_start_plain:
  "Fields ''device /export mounted on /mnt with fstype nfs'' =
     [''device'', ''/export'', ''mounted'', ''on'', ''/mnt'', ''with'', ''fstype'', ''nfs'']"
  by (simp add: Fields_simps)

lemma fields_short_read: "Fields ''READ 1 2 3'' = [''READ'', ''1'', ''2'', ''3'']"
  by (simp add: Fields_simps)

lemma fields_short_xprt:
  "Fields ''xprt: tcp 1 2 3 4 5 6'' = [''xprt:'', ''tcp'', ''1'', ''2'', ''3'', ''4'', ''5'', ''6'']"
  by (simp add: Fields_simps)

lemma convert_block_start_plain:
  "convertToUint64 [''device'', ''/export'', ''mounted'', ''on'', ''/mnt'', ''with'', ''fstype'',
       ''nfs''] = Inr [0, 0, 0, 0, 0, 0, 0]"
  by (simp add: convert_simps)

lemma convert_short_read: "convertToUint64 [''READ'', ''1'', ''2'', ''3''] = Inr [1, 2, 3]"
  by (simp add: convert_simps)

lemma convert_short_xprt:
  "convertToUint64 [''xprt:'', ''tcp'', ''1'', ''2'', ''3'', ''4'', ''5'', ''6''] =
     Inr [0, 1, 2, 3, 4, 5, 6]"
  by (simp add: convert_simps)

lemma parseStat_block_start_plain:
  "parseStat n ''/mnt'' ''/export'' []
     [''device'', ''/export'', ''mounted'', ''on'', ''/mnt'', ''with'', ''fstype'', ''nfs''] a =
   (a, None)"
  by (intro parseStat_no_category [OF convert_block_start_plain, of "''device''"]) simp_all

lemma parseStat_short_read:
  "parseStat n ''/mnt'' ''/export'' [] [''READ'', ''1'', ''2'', ''3''] a =
     (a, Some IndexOutOfRange)"
  by (simp add: parseStat_def convert_short_read classifyStat_def basicStat_def)

lemma parseStat_short_xprt:
  "parseStat fullstatClient ''/mnt'' ''/export'' []
     [''xprt:'', ''tcp'', ''1'', ''2'', ''3'', ''4'', ''5'', ''6''] a =
   (a, Some IndexOutOfRange)"
  by (simp add: parseStat_def convert_short_xprt classifyStat_def basicStat_def fullStat_def
      fullstatClient_simps xprttcpFields_def)

lemma skipMount_fullstat: "\<not> skipMount fullstatClient m"
  by (simp add: skipMount_def fullstatClient_simps)

text \<open>
  Claim C1 against the code. A READ line with 3 numeric fields is not skipped: the
  basic block reads \<^verbatim>\<open>nline[3]\<close> without a guard and the scan ends with an index
  panic. With full statistics on, an xprt tcp line with 7 converted values passes the
  guard \<^verbatim>\<open>len(nline)+2 >= 9\<close>, the loop reads \<^verbatim>\<open>nline[i+2]\<close> up to index 10, and the
  scan ends with an index panic as well.
\<close>

theorem C1_short_lines_panic:
  "processText newNFSClient
     [''device /export mounted on /mnt with fstype nfs'', ''READ 1 2 3''] [] =
     ([], Some IndexOutOfRange) \<and>
   processText fullstatClient
     [''device /export mounted on /mnt with fstype nfs'', ''xprt: tcp 1 2 3 4 5 6''] [] =
     ([], Some IndexOutOfRange)"
proof -
  let ?st0 = "\<lparr>mount = [], version = [], export = []\<rparr>"
  let ?st1 = "\<lparr>mount = ''/mnt'', version = [], export = ''/export''\<rparr>"
  have u1: "updateState [''device'', ''/export'', ''mounted'', ''on'', ''/mnt'', ''with'',
              ''fstype'', ''nfs''] ?st0 = Inr ?st1"
    by (simp add: updateState_def isBlockStart_def Contains_def)
  have u2: "updateState [''READ'', ''1'', ''2'', ''3''] ?st1 = Inr ?st1"
    by (simp add: updateState_def isBlockStart_def isVersionLine_def)
  have u3: "updateState [''xprt:'', ''tcp'', ''1'', ''2'', ''3'', ''4'', ''5'', ''6''] ?st1 = Inr ?st1"
    by (simp add: updateState_def isBlockStart_def isVersionLine_def Contains_def)
  show ?thesis
    by (simp add: processText_def Let_def fields_block_start_plain fields_short_read
        fields_short_xprt u1 u2 u3 skipMount_new skipMount_fullstat
        parseStat_block_start_plain parseStat_short_read parseStat_short_xprt)
qed

subsection \<open>A rejected mount followed by an accepted one\<close>

lemma fields_block_start_data:
  "Fields ''device /exp2 mounted on /data/a with fstype nfs'' =
     [''device'', ''/exp2'', ''mounted'', ''on'', ''/data/a'', ''with'', ''fstype'', ''nfs'']"
  by (simp add: Fields_simps)

lemma fields_overflow_write:
  "Fields ''WRITE 99999999999999999999 1'' = [''WRITE'', ''99999999999999999999'', ''1'']"
  by (simp add: Fields_simps)

lemma convert_block_start_data:
  "convertToUint64 [''device'', ''/exp2'', ''mounted'', ''on'', ''/data/a'', ''with'', ''fstype'',
       ''nfs''] = Inr [0, 0, 0, 0, 0, 0, 0]"
  by (simp add: convert_simps)

theorem C6_witness:
  "\<not> skipMount (newNFSClient\<lparr>includeMountRegex := [mountPrefix ''/data''],
                                 excludeMountRegex := [mountPrefix ''/data/tmp'']\<rparr>) ''/data/a'' \<and>
   skipMount (newNFSClient\<lparr>includeMountRegex := [mountPrefix ''/data''],
                               excludeMountRegex := [mountPrefix ''/data/tmp'']\<rparr>) ''/data/tmp'' \<and>
   skipMount (newNFSClient\<lparr>includeMountRegex := [mountPrefix ''/data''],
                               excludeMountRegex := [mountPrefix ''/data/tmp'']\<rparr>) ''/mnt'' \<and>
   scanLines (newNFSClient\<lparr>includeMountRegex := [mountPrefix ''/data''],
                               excludeMountRegex := [mountPrefix ''/data/tmp'']\<rparr>)
     ([''device /export mounted on /mnt with fstype nfs'', ''READ 1 2 3'',
       ''WRITE 99999999999999999999 1''] @
      [''device /exp2 mounted on /data/a with fstype nfs'', ''READ 10 10 0 100 0 50 5 0''])
     \<lparr>mount = [], version = [], export = []\<rparr> [] =
   ([\<lparr>measurement = ''nfsstat'',
      metricFields = basicFields [10, 10, 0, 100, 0, 50, 5, 0],
      metricTags = statTags ''/data/a'' ''/exp2'' ''READ''\<rparr>], None)"
proof -
  let ?n = "newNFSClient\<lparr>includeMountRegex := [mountPrefix ''/data''],
                          excludeMountRegex := [mountPrefix ''/data/tmp'']\<rparr>"
  let ?st0 = "\<lparr>mount = [], version = [], export = []\<rparr>"
  let ?st1 = "\<lparr>mount = ''/mnt'', version = [], export = ''/export''\<rparr>"
  let ?st2 = "\<lparr>mount = ''/data/a'', version = [], export = ''/exp2''\<rparr>"
  let ?texts = "[''device /export mounted on /mnt with fstype nfs'', ''READ 1 2 3'',
                 ''WRITE 99999999999999999999 1'']"
  let ?rest = "[''device /exp2 mounted on /data/a with fstype nfs'',
                ''READ 10 10 0 100 0 50 5 0'']"
  let ?b1 = "[''device'', ''/export'', ''mounted'', ''on'', ''/mnt'', ''with'', ''fstype'', ''nfs'']"
  let ?b2 = "[''device'', ''/exp2'', ''mounted'', ''on'', ''/data/a'', ''with'', ''fstype'', ''nfs'']"
  let ?l3 = "[''READ'', ''10'', ''10'', ''0'', ''100'', ''0'', ''50'', ''5'', ''0'']"
  note f = fields_block_start_plain fields_short_read fields_overflow_write
    fields_block_start_data fields_read_line
  have nf: "\<not> Fullstat ?n" by (simp add: newNFSClient_def)
  have a1: "\<not> skipMount ?n ''/data/a''"
    using C6_mount_filter [of ?n "''/data/a''" ?st0 ?texts ?rest "[]"]
    by (simp add: newNFSClient_def mountPrefix_def)
  have a2: "skipMount ?n ''/data/tmp''"
    using C6_mount_filter [of ?n "''/data/tmp''" ?st0 ?texts ?rest "[]"]
    by (simp add: newNFSClient_def mountPrefix_def)
  have a3: "skipMount ?n ''/mnt''"
    using C6_mount_filter [of ?n "''/mnt''" ?st0 ?texts ?rest "[]"]
    by (simp add: newNFSClient_def mountPrefix_def)
  have h1: "mount ?st0 = [] \<or> skipMount ?n (mount ?st0)" by simp
  have h2: "\<forall>t\<in>set ?texts. isBlockStart (Fields t) \<longrightarrow> skipMount ?n (Fields t ! 4)"
    using a3 by (simp add: f isBlockStart_def)
  have u: "updateState ?b1 ?st0 = Inr ?st1"
    "updateState [''READ'', ''1'', ''2'', ''3''] ?st1 = Inr ?st1"
    "updateState [''WRITE'', ''99999999999999999999'', ''1''] ?st1 = Inr ?st1"
    "updateState ?b2 ?st1 = Inr ?st2"
    "updateState ?l3 ?st2 = Inr ?st2"
    by (simp_all add: updateState_def isBlockStart_def isVersionLine_def Contains_def)
  have sa: "stateAfter ?texts ?st0 = Inr ?st1" by (simp add: f u)
  have "scanLines ?n (?texts @ ?rest) ?st0 [] =
          (case stateAfter ?texts ?st0 of
             Inl p \<Rightarrow> ([], Some p)
           | Inr st' \<Rightarrow> scanLines ?n ?rest st' [])"
    using C6_mount_filter [of ?n "''/mnt''" ?st0 ?texts ?rest "[]"] h1 h2 by blast
  then have prefix: "scanLines ?n (?texts @ ?rest) ?st0 [] = scanLines ?n ?rest ?st1 []"
    by (simp only: sa sum.case)
  have p1: "parseStat ?n ''/data/a'' ''/exp2'' [] ?b2 [] = ([], None)"
    using nf by (intro parseStat_no_category [OF convert_block_start_data, of "''device''"]) simp_all
  obtain ms where p2: "parseStat ?n ''/data/a'' ''/exp2'' [] ?l3 [] =
      ([] @ \<lparr>measurement = ''nfsstat'', metricFields = basicFields [10, 10, 0, 100, 0, 50, 5, 0],
            metricTags = statTags ''/data/a'' ''/exp2'' ''READ''\<rparr> # ms, None)"
    and ms: "\<not> Fullstat ?n \<longrightarrow> ms = []"
    using parseStat_read_write [OF convert_read_line, of "''READ''" ?n "''/data/a''" "''/exp2''" "[]" "[]"]
    by auto
  have "ms = []" using ms nf by blast
  then have "scanLines ?n ?rest ?st1 [] =
      ([\<lparr>measurement = ''nfsstat'', metricFields = basicFields [10, 10, 0, 100, 0, 50, 5, 0],
         metricTags = statTags ''/data/a'' ''/exp2'' ''READ''\<rparr>], None)"
    using a1 p2 by (simp add: f u p1 Let_def)
  with prefix have "scanLines ?n (?texts @ ?rest) ?st0 [] =
      ([\<lparr>measurement = ''nfsstat'', metricFields = basicFields [10, 10, 0, 100, 0, 50, 5, 0],
         metricTags = statTags ''/data/a'' ''/exp2'' ''READ''\<rparr>], None)"
    by (rule trans)
  then show ?thesis using a1 a2 a3 by blast
qed

subsection \<open>Swallowed conversion errors\<close>










end
